theory Spec2Isabelle
  imports Main
begin

section \<open>Ghost content manager (src/ghost-content/index.js)\<close>

text \<open>
  A shallow embedding of the durable ghost content manager: two database tables
  (\<open>ghost_content\<close>, \<open>ghost_revisions\<close>), the process-local index
  \<open>pendingRevisionsByFolder\<close> and the operations \<open>addRootFolder\<close>,
  \<open>recordRevision\<close>, \<open>readFile\<close>, \<open>deleteFile\<close>,
  \<open>directoryListing\<close>, \<open>getPending\<close> and \<open>getPendingWithContent\<close>.

  What the source takes from elsewhere is a parameter of the model:
  \<^item> \<open>normalizeFolder\<close> (from \<open>./util\<close>): every operation takes its result, the
    folder's path and its normalized name;
  \<^item> Node's \<open>path.join\<close>, \<open>fs.readFile\<close> and \<open>glob\<close>: the record \<open>node\<close>;
  \<^item> \<open>uuid.v4()\<close> and the database's clock: the arguments \<open>revision\<close> and \<open>now\<close>;
  \<^item> the database's \<open>LIKE\<close> operator: the argument \<open>like\<close> of \<open>directoryListing\<close>;
  \<^item> a statement of a transaction that the database refuses: the record \<open>trx_faults\<close>;
  \<^item> how \<open>knex.transaction\<close> settles its promise when the handler calls
    \<open>trx.rollback()\<close>: it rejects it, with the error \<open>rollback_reason\<close>.

  An asynchronous operation is modelled by the state it leaves once all the promises it
  started have settled, together with how the promise it returned was settled.
\<close>

subsection \<open>Strings\<close>

text \<open>
  A \<open>char\<close> stands for the UTF-16 code unit of the same value (0 to 255). Of these,
  \<open>String.prototype.trim\<close> strips TAB, LF, VT, FF, CR, SPACE and NBSP.
\<close>

definition isWhiteSpace :: "char \<Rightarrow> bool" where
  "isWhiteSpace c = (c \<in> {CHR 0x09, CHR 0x0A, CHR 0x0B, CHR 0x0C, CHR 0x0D, CHR 0x20, CHR 0xA0})"

definition trim :: "string \<Rightarrow> string" where
  "trim s = rev (dropWhile isWhiteSpace (rev (dropWhile isWhiteSpace s)))"

text \<open>\<open>s.split(sep)\<close> for a separator of one character: never an empty array.\<close>

fun split :: "char \<Rightarrow> string \<Rightarrow> string list" where
  "split sep [] = [[]]"
| "split sep (c # cs) =
     (if c = sep then [] # split sep cs
      else (case split sep cs of
              [] \<Rightarrow> [[c]]
            | l # ls \<Rightarrow> (c # l) # ls))"

definition startsWith :: "string \<Rightarrow> char \<Rightarrow> bool" where
  "startsWith s c = (case s of [] \<Rightarrow> False | d # _ \<Rightarrow> d = c)"

text \<open>\<open>uniq\<close> of lodash keeps the first occurrence of every element.\<close>

definition uniq :: "'a list \<Rightarrow> 'a list" where
  "uniq xs = rev (remdups (rev xs))"

text \<open>
  The text whose lines are \<open>ls\<close>: a line feed between every two of them. The code
  never builds a text this way; it is the notion of a line that the property of the
  manifest is stated with.
\<close>

fun join_lines :: "string list \<Rightarrow> string" where
  "join_lines [] = []"
| "join_lines [l] = l"
| "join_lines (l # k # ls) = l @ CHR 0x0A # join_lines (k # ls)"

subsection \<open>Errors and outcomes\<close>

datatype error =
    SystemError string  \<comment> \<open>a failure of \<open>fs\<close> or \<open>glob\<close>, with its \<open>code\<close>\<close>
  | TypeError           \<comment> \<open>a property read of \<open>undefined\<close>\<close>
  | Error string        \<comment> \<open>\<open>new Error(message)\<close>\<close>
  | DbError string      \<comment> \<open>a statement the database refused\<close>

text \<open>How the promise an operation returns is settled.\<close>

datatype 'a outcome = Resolved 'a | Rejected error

text \<open>
  \<open>recordRevision\<close> and \<open>deleteFile\<close> return the promise of \<open>knex.transaction\<close>.
  knex is not among the sources: it rejects that promise when the handler calls
  \<open>trx.rollback\<close>, and with this error when the call gives no reason, as both
  handlers do.
\<close>

definition rollback_reason :: error where
  "rollback_reason = Error ''Transaction rejected with non-error: undefined''"

subsection \<open>The environment\<close>

record node =
  path_join :: "string \<Rightarrow> string \<Rightarrow> string"
  readFileAsync :: "string \<Rightarrow> error + string"
  globAsync :: "string \<Rightarrow> string \<Rightarrow> error + string list"
    \<comment> \<open>the pattern, then the option \<open>cwd\<close>\<close>

text \<open>
  The statements of a transaction the database refuses, each with the error it gives:
  the write to \<open>ghost_content\<close> and the insert into \<open>ghost_revisions\<close>, whose
  promises the handler chains to its \<open>catch\<close>. What a commit that fails does is the
  library's, and no failing commit is modelled.
\<close>

record trx_faults =
  content_write :: "error option"
  revision_insert :: "error option"

definition no_faults :: trx_faults where
  "no_faults = \<lparr>content_write = None, revision_insert = None\<rparr>"

subsection \<open>The tables and the state\<close>

text \<open>
  The declarations of the two tables are not among the sources. The columns are the ones
  the statements name; \<open>id\<close> is handed out by a sequence that starts at 1,
  \<open>deleted\<close> is false and \<open>created_on\<close> the clock's value unless the insert gives
  them, and \<open>content_id\<close> may be null. The fields carry the table's initial
  (\<open>c_\<close>, \<open>r_\<close>; \<open>p_\<close> for a row of the pending query).
\<close>

record content_row =
  c_id :: nat
  c_folder :: string
  c_file :: string
  c_content :: "string option"
  c_deleted :: bool

record revision_row =
  r_id :: nat
  r_content_id :: "nat option"
  r_revision :: string
  r_created_on :: nat
  r_created_by :: string

record pending_row =
  p_file :: string
  p_id :: nat
  p_revision :: string
  p_created_on :: nat
  p_created_by :: string

record ghost =
  ghost_content :: "content_row list"
  ghost_revisions :: "revision_row list"
  content_seq :: nat      \<comment> \<open>the last id handed out for \<open>ghost_content\<close>\<close>
  revisions_seq :: nat    \<comment> \<open>the last id handed out for \<open>ghost_revisions\<close>\<close>
  pendingRevisionsByFolder :: "string \<rightharpoonup> pending_row list"
  trackedFolders :: "string list"
  logged :: "error list"  \<comment> \<open>the arguments of \<open>logger.error\<close>, oldest first\<close>

definition REVISIONS_FILE_NAME :: string where
  "REVISIONS_FILE_NAME = ''.ghost-revisions''"

subsection \<open>upsert, recordFile\<close>

text \<open>
  \<open>where(where).select(idField)\<close>, always with \<open>where = {folder, file}\<close> on
  \<open>ghost_content\<close>.
\<close>

definition select_where :: "ghost \<Rightarrow> string \<Rightarrow> string \<Rightarrow> content_row list" where
  "select_where s folder file =
     filter (\<lambda>c. c_folder c = folder \<and> c_file c = file) (ghost_content s)"

text \<open>
  \<open>upsert\<close> updates the rows whose id is the first selected row's when that id is
  truthy (not 0), and inserts \<open>{folder, file, content}\<close> otherwise.
\<close>

definition upsert :: "ghost \<Rightarrow> string \<Rightarrow> string \<Rightarrow> string \<Rightarrow> ghost" where
  "upsert s folder file content =
     (let res = select_where s folder file;
          id = (case res of [] \<Rightarrow> None | c # _ \<Rightarrow> Some (c_id c))
      in case id of
           Some i \<Rightarrow>
             if i \<noteq> 0
             then s\<lparr>ghost_content :=
                      map (\<lambda>c. if c_id c = i then c\<lparr>c_content := Some content\<rparr> else c)
                          (ghost_content s)\<rparr>
             else s\<lparr>ghost_content := ghost_content s @
                        [\<lparr>c_id = Suc (content_seq s), c_folder = folder, c_file = file,
                          c_content = Some content, c_deleted = False\<rparr>],
                    content_seq := Suc (content_seq s)\<rparr>
         | None \<Rightarrow>
             s\<lparr>ghost_content := ghost_content s @
                  [\<lparr>c_id = Suc (content_seq s), c_folder = folder, c_file = file,
                    c_content = Some content, c_deleted = False\<rparr>],
               content_seq := Suc (content_seq s)\<rparr>)"

definition recordFile :: "node \<Rightarrow> ghost \<Rightarrow> string \<Rightarrow> string \<Rightarrow> string \<Rightarrow> error + ghost" where
  "recordFile env s folderPath folder file =
     (case readFileAsync env (path_join env folderPath file) of
        Inl e \<Rightarrow> Inl e
      | Inr content \<Rightarrow> Inr (upsert s folder file content))"

subsection \<open>getPendingRevisions\<close>

text \<open>
  The inner join of \<open>ghost_revisions\<close> with \<open>ghost_content\<close> on
  \<open>ghost_content.id = ghost_revisions.content_id\<close> (never true of a null
  \<open>content_id\<close>), the rows of one folder, most recent first. Rows of one time stamp
  keep the order of the join.
\<close>

definition getPendingRevisions :: "ghost \<Rightarrow> string \<Rightarrow> pending_row list" where
  "getPendingRevisions s normalizedFolderName =
     sort_key (\<lambda>p. - int (p_created_on p))
       (concat (map (\<lambda>r.
          map (\<lambda>c. \<lparr>p_file = c_file c, p_id = r_id r, p_revision = r_revision r,
                     p_created_on = r_created_on r, p_created_by = r_created_by r\<rparr>)
              (filter (\<lambda>c. r_content_id r = Some (c_id c) \<and> c_folder c = normalizedFolderName)
                      (ghost_content s)))
          (ghost_revisions s)))"

definition updatePendingForFolder :: "ghost \<Rightarrow> string \<Rightarrow> ghost" where
  "updatePendingForFolder s normalizedFolderName =
     s\<lparr>pendingRevisionsByFolder :=
         (pendingRevisionsByFolder s)(normalizedFolderName \<mapsto>
            getPendingRevisions s normalizedFolderName)\<rparr>"

subsection \<open>readFile, directoryListing, deleteFile, recordRevision\<close>

text \<open>
  \<open>.get(0).get('content')\<close>: the first row's content, which is null for a tombstone;
  with no row, the property read of \<open>undefined\<close> throws.
\<close>

definition readFile :: "ghost \<Rightarrow> string \<Rightarrow> string \<Rightarrow> string option outcome" where
  "readFile s folder file =
     (case select_where s folder file of
        [] \<Rightarrow> Rejected TypeError
      | c # _ \<Rightarrow> Resolved (c_content c))"

definition directoryListing ::
  "(string \<Rightarrow> string \<Rightarrow> bool) \<Rightarrow> ghost \<Rightarrow> string \<Rightarrow> string \<Rightarrow> string list" where
  "directoryListing like s folder fileEndingPattern =
     map c_file
       (filter (\<lambda>c. c_folder c = folder \<and> c_deleted c = False
                    \<and> like (c_file c) (''%'' @ fileEndingPattern))
               (ghost_content s))"

text \<open>
  The transaction of \<open>recordRevision\<close> and \<open>deleteFile\<close>: the write to
  \<open>ghost_content\<close> (\<open>written\<close> is the store after it), the insert into
  \<open>ghost_revisions\<close>, the commit, then \<open>updatePendingForFolder\<close>. When a statement
  is refused the handler's \<open>catch\<close> logs its error and calls \<open>trx.rollback()\<close>: the
  tables and sequences become those before the transaction, whatever it had written,
  and the promise is rejected.
\<close>

definition rollback :: "ghost \<Rightarrow> ghost \<Rightarrow> ghost" where
  "rollback before s =
     s\<lparr>ghost_content := ghost_content before, ghost_revisions := ghost_revisions before,
       content_seq := content_seq before, revisions_seq := revisions_seq before\<rparr>"

definition insert_revision :: "ghost \<Rightarrow> nat option \<Rightarrow> string \<Rightarrow> nat \<Rightarrow> ghost" where
  "insert_revision s content_id revision now =
     s\<lparr>ghost_revisions := ghost_revisions s @
          [\<lparr>r_id = Suc (revisions_seq s), r_content_id = content_id, r_revision = revision,
            r_created_on = now, r_created_by = ''admin''\<rparr>],
       revisions_seq := Suc (revisions_seq s)\<rparr>"

definition transaction ::
  "trx_faults \<Rightarrow> ghost \<Rightarrow> ghost \<Rightarrow> nat option \<Rightarrow> string \<Rightarrow> nat \<Rightarrow> string
    \<Rightarrow> unit outcome \<times> ghost" where
  "transaction faults s written content_id revision now normalizedFolderName =
     (case content_write faults of
        Some err \<Rightarrow>
          (Rejected rollback_reason, rollback s (s\<lparr>logged := logged s @ [err]\<rparr>))
      | None \<Rightarrow>
         (case revision_insert faults of
            Some err \<Rightarrow>
              (Rejected rollback_reason,
               rollback s (written\<lparr>logged := logged written @ [err]\<rparr>))
          | None \<Rightarrow>
             (Resolved (),
              updatePendingForFolder (insert_revision written content_id revision now)
                normalizedFolderName)))"

definition recordRevision ::
  "trx_faults \<Rightarrow> ghost \<Rightarrow> string \<Rightarrow> string \<Rightarrow> string \<Rightarrow> string \<Rightarrow> nat
    \<Rightarrow> unit outcome \<times> ghost" where
  "recordRevision faults s normalizedFolderName file newContent revision now =
     (let row = (case select_where s normalizedFolderName file of
                   [] \<Rightarrow> None | c # _ \<Rightarrow> Some c);
          id = map_option c_id row;
          content = (case row of None \<Rightarrow> None | Some c \<Rightarrow> c_content c)
      in if Some newContent = content then (Resolved (), s)
         else transaction faults s (upsert s normalizedFolderName file newContent)
                id revision now normalizedFolderName)"

definition deleteFile ::
  "trx_faults \<Rightarrow> ghost \<Rightarrow> string \<Rightarrow> string \<Rightarrow> string \<Rightarrow> nat \<Rightarrow> unit outcome \<times> ghost" where
  "deleteFile faults s normalizedFolderName file revision now =
     (let id = (case filter (\<lambda>c. c_deleted c = False) (select_where s normalizedFolderName file) of
                  [] \<Rightarrow> None | c # _ \<Rightarrow> Some (c_id c))
      in if id = None \<or> id = Some 0
         then (Rejected (Error (''Can't delete file: '' @ file
                  @ '': couldn't find it in folder: '' @ normalizedFolderName)), s)
         else transaction faults s
                (s\<lparr>ghost_content :=
                     map (\<lambda>c. if Some (c_id c) = id
                               then c\<lparr>c_deleted := True, c_content := None\<rparr> else c)
                         (ghost_content s)\<rparr>)
                id revision now normalizedFolderName)"

subsection \<open>getPending, getPendingWithContent\<close>

definition getPending :: "ghost \<Rightarrow> (string \<rightharpoonup> pending_row list)" where
  "getPending s = pendingRevisionsByFolder s"

record pending_with_content =
  w_files :: "(string \<times> string option \<times> bool) list"  \<comment> \<open>file, content, deleted\<close>
  w_revisions :: "string list"

definition getPendingWithContentForFolder ::
  "ghost \<Rightarrow> pending_row list \<Rightarrow> string \<Rightarrow> pending_with_content" where
  "getPendingWithContentForFolder s folderInfo normalizedFolderName =
     (let revisions = map p_revision folderInfo;
          fileNames = uniq (map p_file folderInfo)
      in \<lparr>w_files = map (\<lambda>c. (c_file c, c_content c, c_deleted c))
                     (filter (\<lambda>c. c_file c \<in> set fileNames \<and> c_folder c = normalizedFolderName)
                             (ghost_content s)),
          w_revisions = revisions\<rparr>)"

definition getPendingWithContent :: "ghost \<Rightarrow> (string \<rightharpoonup> pending_with_content)" where
  "getPendingWithContent s =
     (\<lambda>folder. map_option (\<lambda>folderInfo. getPendingWithContentForFolder s folderInfo folder)
                  (pendingRevisionsByFolder s folder))"

subsection \<open>addRootFolder\<close>

text \<open>
  The known revisions: the lines of the manifest, trimmed, without the empty ones and
  those that start with \<open>#\<close>. The \<open>reduce\<close> makes them the own keys of an object
  literal, so a lookup is truthy for them and for the property names every object
  inherits from \<open>Object.prototype\<close>.
\<close>

definition parseRevisions :: "string \<Rightarrow> string list" where
  "parseRevisions content =
     filter (\<lambda>s. s \<noteq> [] \<and> \<not> startsWith s CHR ''#'')
       (map trim (split CHR 0x0A (trim content)))"

definition Object_prototype :: "string list" where
  "Object_prototype =
     [''constructor'', ''__defineGetter__'', ''__defineSetter__'', ''hasOwnProperty'',
      ''__lookupGetter__'', ''__lookupSetter__'', ''isPrototypeOf'',
      ''propertyIsEnumerable'', ''toString'', ''valueOf'', ''__proto__'',
      ''toLocaleString'']"

definition lookup :: "string list \<Rightarrow> string \<Rightarrow> bool" where
  "lookup knownRevisions revision =
     (revision \<in> set knownRevisions \<or> revision \<in> set Object_prototype)"

text \<open>\<open>fileRevisionsPromise\<close>: a missing manifest reads as the empty string.\<close>

definition fileRevisions :: "node \<Rightarrow> string \<Rightarrow> error + string list" where
  "fileRevisions env folderPath =
     (case readFileAsync env (path_join env folderPath REVISIONS_FILE_NAME) of
        Inl e \<Rightarrow> if e = SystemError ''ENOENT'' then Inr (parseRevisions []) else Inl e
      | Inr content \<Rightarrow> Inr (parseRevisions content))"

text \<open>
  \<open>Promise.map(files, recordFile)\<close> starts every \<open>recordFile\<close>; the files that can be
  read are upserted whether or not another read fails, and the first error (here: in
  the order of \<open>files\<close>) rejects the map.
\<close>

fun recordFiles ::
  "node \<Rightarrow> string \<Rightarrow> string \<Rightarrow> string list \<Rightarrow> ghost \<Rightarrow> error option \<times> ghost" where
  "recordFiles env folderPath folder [] s = (None, s)"
| "recordFiles env folderPath folder (file # rest) s =
     (case recordFile env s folderPath folder file of
        Inl e \<Rightarrow> (Some e, snd (recordFiles env folderPath folder rest s))
      | Inr s' \<Rightarrow> recordFiles env folderPath folder rest s')"

definition addRootFolder ::
  "node \<Rightarrow> ghost \<Rightarrow> string \<Rightarrow> string \<Rightarrow> string \<Rightarrow> unit outcome \<times> ghost" where
  "addRootFolder env s folderPath normalizedFolderName filesGlob =
     (let s1 = s\<lparr>trackedFolders := trackedFolders s @ [normalizedFolderName]\<rparr> in
      case fileRevisions env folderPath of
        Inl e \<Rightarrow> (Rejected e, s1)
      | Inr knownRevisions \<Rightarrow>
         (let dbRevisions = getPendingRevisions s1 normalizedFolderName;
              revisionsToDelete = filter (\<lambda>p. lookup knownRevisions (p_revision p)) dbRevisions;
              remainingRevisions =
                filter (\<lambda>p. \<not> lookup knownRevisions (p_revision p)) dbRevisions;
              s2 = (if revisionsToDelete \<noteq> []
                    then s1\<lparr>ghost_revisions :=
                              filter (\<lambda>r. r_id r \<notin> set (map p_id revisionsToDelete))
                                     (ghost_revisions s1)\<rparr>
                    else s1)
          in if remainingRevisions \<noteq> []
             then (Resolved (),
                   s2\<lparr>pendingRevisionsByFolder :=
                        (pendingRevisionsByFolder s2)(normalizedFolderName \<mapsto> remainingRevisions)\<rparr>)
             else (case globAsync env filesGlob folderPath of
                     Inl e \<Rightarrow> (Rejected e, s2)
                   | Inr files \<Rightarrow>
                      (case recordFiles env folderPath normalizedFolderName files s2 of
                         (Some e, s3) \<Rightarrow> (Rejected e, s3)
                       | (None, s3) \<Rightarrow>
                           (Resolved (),
                            s3\<lparr>ghost_content :=
                                 filter (\<lambda>c. \<not> (c_file c \<notin> set files
                                                 \<and> c_folder c = normalizedFolderName))
                                        (ghost_content s3)\<rparr>)))))"

subsection \<open>Well-formed stores\<close>

text \<open>
  What the database and \<open>uuid.v4()\<close> guarantee of the rows, each property on its
  own: ids are truthy; the sequence hands out every id once; \<open>upsert\<close> keeps one row
  per folder and file; a revision's token is not a property name that the object
  literal of the known revisions inherits.
\<close>

definition ids_truthy :: "ghost \<Rightarrow> bool" where
  "ids_truthy s = list_all (\<lambda>c. c_id c \<noteq> 0) (ghost_content s)"

definition content_ids_ok :: "ghost \<Rightarrow> bool" where
  "content_ids_ok s =
     (distinct (map c_id (ghost_content s)) \<and>
      list_all (\<lambda>c. 0 < c_id c \<and> c_id c \<le> content_seq s) (ghost_content s))"

definition keys :: "ghost \<Rightarrow> (string \<times> string) set" where
  "keys s = set (map (\<lambda>c. (c_folder c, c_file c)) (ghost_content s))"

definition keys_unique :: "ghost \<Rightarrow> bool" where
  "keys_unique s = distinct (map (\<lambda>c. (c_folder c, c_file c)) (ghost_content s))"

definition revision_ids_issued :: "ghost \<Rightarrow> bool" where
  "revision_ids_issued s = list_all (\<lambda>r. r_id r \<le> revisions_seq s) (ghost_revisions s)"

definition revision_ids_unique :: "ghost \<Rightarrow> bool" where
  "revision_ids_unique s = distinct (map r_id (ghost_revisions s))"

definition no_inherited_tokens :: "ghost \<Rightarrow> bool" where
  "no_inherited_tokens s =
     list_all (\<lambda>r. r_revision r \<notin> set Object_prototype) (ghost_revisions s)"

text \<open>The four properties of the tables together.\<close>

definition wf :: "ghost \<Rightarrow> bool" where
  "wf s = (content_ids_ok s \<and> keys_unique s \<and> revision_ids_issued s \<and> revision_ids_unique s)"

text \<open>No row of the folder is a tombstone.\<close>

definition live :: "ghost \<Rightarrow> string \<Rightarrow> bool" where
  "live s folder = list_all (\<lambda>c. c_folder c = folder \<longrightarrow> \<not> c_deleted c) (ghost_content s)"

text \<open>The rows one revision contributes to the pending query of a folder.\<close>

definition joined :: "ghost \<Rightarrow> string \<Rightarrow> revision_row \<Rightarrow> pending_row list" where
  "joined s folder r =
     map (\<lambda>c. \<lparr>p_file = c_file c, p_id = r_id r, p_revision = r_revision r,
                p_created_on = r_created_on r, p_created_by = r_created_by r\<rparr>)
         (filter (\<lambda>c. r_content_id r = Some (c_id c) \<and> c_folder c = folder) (ghost_content s))"

text \<open>The error of the first statement of a transaction that is refused.\<close>

definition first_fault :: "trx_faults \<Rightarrow> error option" where
  "first_fault faults =
     (case content_write faults of
        Some err \<Rightarrow> Some err
      | None \<Rightarrow> revision_insert faults)"

subsection \<open>Sequences of calls\<close>

text \<open>
  The calls that change a store, and the token a call gives the revision it appends
  (\<open>uuid.v4()\<close> in \<open>deleteFile\<close>, the caller's in \<open>recordRevision\<close>).
\<close>

datatype call =
    RecordRevision trx_faults string string string string nat
  | DeleteFile trx_faults string string string nat
  | AddRootFolder node string string string

fun apply_call :: "call \<Rightarrow> ghost \<Rightarrow> ghost" where
  "apply_call (RecordRevision faults folder name newContent revision now) s =
     snd (recordRevision faults s folder name newContent revision now)"
| "apply_call (DeleteFile faults folder name revision now) s =
     snd (deleteFile faults s folder name revision now)"
| "apply_call (AddRootFolder env folderPath folder filesGlob) s =
     snd (addRootFolder env s folderPath folder filesGlob)"

fun call_tokens :: "call \<Rightarrow> string list" where
  "call_tokens (RecordRevision faults folder name newContent revision now) = [revision]"
| "call_tokens (DeleteFile faults folder name revision now) = [revision]"
| "call_tokens (AddRootFolder env folderPath folder filesGlob) = []"

text \<open>
  The revision row \<open>n\<close> with token \<open>token\<close> has no content row and no snapshot of the
  pending revisions has it: \<open>n\<close> has been handed out, every row of
  \<open>ghost_revisions\<close> with that id or token has a null \<open>content_id\<close>, and no row of
  \<open>pendingRevisionsByFolder\<close> has that id or token.
\<close>

definition unjoined :: "nat \<Rightarrow> string \<Rightarrow> ghost \<Rightarrow> bool" where
  "unjoined n token t =
     (n \<le> revisions_seq t \<and>
      list_all (\<lambda>r. r_id r = n \<or> r_revision r = token \<longrightarrow> r_content_id r = None)
        (ghost_revisions t) \<and>
      (\<forall>f rows. pendingRevisionsByFolder t f = Some rows \<longrightarrow>
         list_all (\<lambda>p. p_id p \<noteq> n \<and> p_revision p \<noteq> token) rows))"

subsection \<open>An example store and file system\<close>

text \<open>
  Folder \<open>flows\<close> holds a live file with a released revision and a tombstone with an
  unreleased one; folder \<open>actions\<close> has no manifest and no revisions; the manifest of
  \<open>secret\<close> cannot be read.
\<close>

definition example_store :: ghost where
  "example_store =
     \<lparr>ghost_content =
        [\<lparr>c_id = 1, c_folder = ''flows'', c_file = ''a.json'', c_content = Some ''v1'',
          c_deleted = False\<rparr>,
         \<lparr>c_id = 2, c_folder = ''flows'', c_file = ''b.json'', c_content = None,
          c_deleted = True\<rparr>,
         \<lparr>c_id = 3, c_folder = ''actions'', c_file = ''old.js'', c_content = Some ''old'',
          c_deleted = False\<rparr>],
      ghost_revisions =
        [\<lparr>r_id = 1, r_content_id = Some 1, r_revision = ''r-1'', r_created_on = 10,
          r_created_by = ''admin''\<rparr>,
         \<lparr>r_id = 2, r_content_id = Some 2, r_revision = ''r-2'', r_created_on = 20,
          r_created_by = ''admin''\<rparr>],
      content_seq = 3, revisions_seq = 2,
      pendingRevisionsByFolder = Map.empty, trackedFolders = [], logged = []\<rparr>"

definition example_manifest :: string where
  "example_manifest = ''# released'' @ [CHR 0x0A] @ '' r-1 '' @ [CHR 0x0D, CHR 0x0A, CHR 0x0A]"

definition example_node :: node where
  "example_node =
     \<lparr>path_join = (\<lambda>dir name. dir @ ''/'' @ name),
      readFileAsync = (\<lambda>path.
        if path = ''/bot/flows/.ghost-revisions'' then Inr example_manifest
        else if path = ''/bot/secret/.ghost-revisions'' then Inl (SystemError ''EACCES'')
        else if path = ''/bot/actions/x.js'' then Inr ''x''
        else if path = ''/bot/actions/y.js'' then Inr ''y''
        else Inl (SystemError ''ENOENT'')),
      globAsync = (\<lambda>pattern cwd.
        if cwd = ''/bot/actions'' then Inr [''x.js'', ''y.js''] else Inr [])\<rparr>"

definition busy :: trx_faults where
  "busy = \<lparr>content_write = None, revision_insert = Some (DbError ''SQLITE_BUSY'')\<rparr>"

definition full :: trx_faults where
  "full = \<lparr>content_write = Some (DbError ''SQLITE_FULL''), revision_insert = None\<rparr>"

text \<open>
  The example of the specification: an empty store, a folder with \<open>a.json\<close> and
  \<open>b.json\<close> and no manifest, and \<open>LIKE\<close> at the pattern \<open>%\<close>, which every name
  matches: the pattern of \<open>directoryListing\<close> without a \<open>fileEndingPattern\<close>.
\<close>

definition empty_store :: ghost where
  "empty_store =
     \<lparr>ghost_content = [], ghost_revisions = [], content_seq = 0, revisions_seq = 0,
      pendingRevisionsByFolder = Map.empty, trackedFolders = [], logged = []\<rparr>"

definition flows_node :: node where
  "flows_node =
     \<lparr>path_join = (\<lambda>dir name. dir @ ''/'' @ name),
      readFileAsync = (\<lambda>path.
        if path = ''/bot/flows/a.json'' then Inr ''v1''
        else if path = ''/bot/flows/b.json'' then Inr ''w1''
        else Inl (SystemError ''ENOENT'')),
      globAsync = (\<lambda>pattern cwd. Inr [''a.json'', ''b.json''])\<rparr>"

definition like_any :: "string \<Rightarrow> string \<Rightarrow> bool" where
  "like_any name pattern = (pattern = ''%'')"

text \<open>
  A manifest with a comment, three tokens, an empty line, a line that ends in a
  carriage return, an indented comment and a final line feed, its lines, and the
  folder \<open>flows\<close> with that manifest.
\<close>

definition release_manifest :: string where
  "release_manifest =
     ''# released'' @ [CHR 0x0A] @ ''abc-1'' @ [CHR 0x0A, CHR 0x0A] @ ''  def-2''
       @ [CHR 0x0D, CHR 0x0A, CHR 0x09] @ ''# not yet'' @ [CHR 0x0A] @ ''ghi 3  '' @ [CHR 0x0A]"

definition release_lines :: "string list" where
  "release_lines =
     [''# released'', ''abc-1'', [], ''  def-2'' @ [CHR 0x0D], [CHR 0x09] @ ''# not yet'',
      ''ghi 3  '', []]"

definition released_node :: node where
  "released_node =
     flows_node\<lparr>readFileAsync := (\<lambda>path.
        if path = ''/bot/flows/.ghost-revisions'' then Inr release_manifest
        else readFileAsync flows_node path)\<rparr>"

text \<open>
  A history of \<open>flows\<close>: registered from the disk; \<open>b.json\<close> deleted, with the
  token \<open>def-2\<close>; registered again with the manifest that lists \<open>def-2\<close>, the file
  \<open>b.json\<close> still on the disk.
\<close>

definition registered_store :: ghost where
  "registered_store =
     snd (addRootFolder flows_node empty_store ''/bot/flows'' ''flows'' ''*.json'')"

definition deleted_store :: ghost where
  "deleted_store = snd (deleteFile no_faults registered_store ''flows'' ''b.json'' ''def-2'' 20)"

definition released_store :: ghost where
  "released_store =
     snd (addRootFolder released_node deleted_store ''/bot/flows'' ''flows'' ''*.json'')"

text \<open>
  The example store with the snapshot of the pending revisions of \<open>flows\<close> taken, and
  two later calls: a deletion and a registration with the manifest that lists
  \<open>r-1\<close>.
\<close>

definition pending_store :: ghost where
  "pending_store = updatePendingForFolder example_store ''flows''"

definition later_calls :: "call list" where
  "later_calls =
     [DeleteFile no_faults ''flows'' ''a.json'' ''r-4'' 40,
      AddRootFolder example_node ''/bot/flows'' ''flows'' ''*.json'']"

section \<open>Properties\<close>

subsection \<open>Writing, then reading\<close>

lemma filter_key_map_content:
  "filter (\<lambda>c. c_folder c = folder \<and> c_file c = file)
     (map (\<lambda>c. if P c then c\<lparr>c_content := v\<rparr> else c) xs) =
   map (\<lambda>c. if P c then c\<lparr>c_content := v\<rparr> else c)
     (filter (\<lambda>c. c_folder c = folder \<and> c_file c = file) xs)"
  by (induction xs) auto

lemma select_where_upsert_hit:
  assumes "select_where s folder file = c # rest" and "c_id c \<noteq> 0"
  shows "select_where (upsert s folder file content) folder file =
           c\<lparr>c_content := Some content\<rparr> #
           map (\<lambda>d. if c_id d = c_id c then d\<lparr>c_content := Some content\<rparr> else d) rest"
  using assms
  by (simp add: upsert_def select_where_def filter_key_map_content)

lemma select_where_upsert_miss:
  assumes "select_where s folder file = []"
  shows "select_where (upsert s folder file content) folder file =
           [\<lparr>c_id = Suc (content_seq s), c_folder = folder, c_file = file,
             c_content = Some content, c_deleted = False\<rparr>]"
  using assms
  by (simp add: upsert_def select_where_def)

lemma select_where_mem:
  "select_where s folder file = c # rest \<Longrightarrow> c \<in> set (ghost_content s)"
  by (metis filter_is_subset list.set_intros(1) select_where_def subsetD)

lemma readFile_upsert:
  assumes "ids_truthy s"
  shows "readFile (upsert s folder file content) folder file = Resolved (Some content)"
proof (cases "select_where s folder file")
  case Nil
  then show ?thesis
    by (simp add: readFile_def select_where_upsert_miss)
next
  case (Cons c rest)
  then have "c \<in> set (ghost_content s)"
    by (rule select_where_mem)
  with assms have "c_id c \<noteq> 0"
    by (simp add: ids_truthy_def list_all_iff)
  with Cons show ?thesis
    by (simp add: readFile_def select_where_upsert_hit)
qed

lemma ghost_content_transaction:
  "transaction faults s written cid revision now folder = (Resolved (), s') \<Longrightarrow>
   ghost_content s' = ghost_content written"
  by (auto simp: transaction_def updatePendingForFolder_def insert_revision_def
           split: option.splits)

lemma readFile_cong:
  "ghost_content s = ghost_content t \<Longrightarrow> readFile s folder file = readFile t folder file"
  by (simp add: readFile_def select_where_def)

lemma readFile_after_recordRevision:
  assumes "ids_truthy s"
      and "recordRevision faults s folder file newContent revision now = (Resolved (), s')"
  shows "readFile s' folder file = Resolved (Some newContent)"
proof (cases "readFile s folder file = Resolved (Some newContent)")
  case True
  then have "recordRevision faults s folder file newContent revision now = (Resolved (), s)"
    by (auto simp: recordRevision_def readFile_def split: list.splits)
  with assms(2) True show ?thesis by simp
next
  case False
  then have "recordRevision faults s folder file newContent revision now =
      transaction faults s (upsert s folder file newContent)
        (map_option c_id (case select_where s folder file of [] \<Rightarrow> None | c # _ \<Rightarrow> Some c))
        revision now folder"
    by (auto simp: recordRevision_def readFile_def Let_def split: list.splits)
  with assms(2) have "ghost_content s' = ghost_content (upsert s folder file newContent)"
    by (simp add: ghost_content_transaction)
  then have "readFile s' folder file = readFile (upsert s folder file newContent) folder file"
    by (rule readFile_cong)
  with assms(1) show ?thesis
    by (simp add: readFile_upsert)
qed

text \<open>
  Claim C3. After \<open>recordRevision(folder, file, content)\<close> has resolved, whether it
  wrote or found the content unchanged, \<open>readFile(folder, file)\<close> resolves with exactly
  that content. Ids are truthy, as the sequence makes them.
\<close>

theorem recordRevision_then_readFile:
  assumes "ids_truthy s"
      and "recordRevision faults s folder file newContent revision now = (Resolved (), s')"
  shows "readFile s' folder file = Resolved (Some newContent)"
  using assms by (rule readFile_after_recordRevision)

theorem recordRevision_then_readFile_witness:
  "ids_truthy example_store \<and>
   fst (recordRevision no_faults example_store ''flows'' ''a.json'' ''v2'' ''r-3'' 30) = Resolved () \<and>
   readFile (snd (recordRevision no_faults example_store ''flows'' ''a.json'' ''v2'' ''r-3'' 30))
     ''flows'' ''a.json'' = Resolved (Some ''v2'')"
proof -
  have h1: "ids_truthy example_store"
    by code_simp
  have r: "fst (recordRevision no_faults example_store ''flows'' ''a.json'' ''v2'' ''r-3'' 30) = Resolved ()"
    by code_simp
  then have h2: "recordRevision no_faults example_store ''flows'' ''a.json'' ''v2'' ''r-3'' 30 =
      (Resolved (), snd (recordRevision no_faults example_store ''flows'' ''a.json'' ''v2'' ''r-3'' 30))"
    by (simp add: prod_eq_iff)
  from recordRevision_then_readFile[OF h1 h2] h1 r show ?thesis
    by simp
qed

subsection \<open>Unchanged content\<close>

lemma recordRevision_same:
  "readFile s folder file = Resolved (Some newContent) \<Longrightarrow>
   recordRevision faults s folder file newContent revision now = (Resolved (), s)"
  by (auto simp: recordRevision_def readFile_def split: list.splits)

lemma recordRevision_differs:
  "readFile s folder file \<noteq> Resolved (Some newContent) \<Longrightarrow>
   recordRevision faults s folder file newContent revision now =
     transaction faults s (upsert s folder file newContent)
       (case select_where s folder file of [] \<Rightarrow> None | c # _ \<Rightarrow> Some (c_id c))
       revision now folder"
  by (auto simp: recordRevision_def readFile_def Let_def split: list.splits)

lemma ghost_revisions_upsert:
  "ghost_revisions (upsert s folder file content) = ghost_revisions s"
  by (simp add: upsert_def Let_def split: list.splits)

lemma revisions_seq_upsert:
  "revisions_seq (upsert s folder file content) = revisions_seq s"
  by (simp add: upsert_def Let_def split: list.splits)

lemma ghost_revisions_transaction:
  "transaction faults s written cid revision now folder = (Resolved (), s') \<Longrightarrow>
   ghost_revisions s' = ghost_revisions written @
     [\<lparr>r_id = Suc (revisions_seq written), r_content_id = cid, r_revision = revision,
       r_created_on = now, r_created_by = ''admin''\<rparr>]"
  by (auto simp: transaction_def updatePendingForFolder_def insert_revision_def
           split: option.splits)

text \<open>
  Claim C4. \<open>recordRevision\<close> with the content that \<open>readFile\<close> already gives
  resolves and changes nothing. So a second \<open>recordRevision\<close> with the content of a
  first one that resolved changes nothing, and after both calls \<open>ghost_revisions\<close>
  has the one row the first call appended (none, if the first call found the content
  unchanged).
\<close>

theorem recordRevision_identical_noop:
  "(readFile s folder file = Resolved (Some newContent) \<longrightarrow>
      recordRevision faults s folder file newContent revision now = (Resolved (), s)) \<and>
   (ids_truthy s \<and>
    recordRevision faults s folder file newContent revision now = (Resolved (), s') \<longrightarrow>
      recordRevision faults' s' folder file newContent revision' now' = (Resolved (), s') \<and>
      ghost_revisions s' =
        (if readFile s folder file = Resolved (Some newContent) then ghost_revisions s
         else ghost_revisions s @
           [\<lparr>r_id = Suc (revisions_seq s),
             r_content_id = (case select_where s folder file of
                               [] \<Rightarrow> None | c # _ \<Rightarrow> Some (c_id c)),
             r_revision = revision, r_created_on = now, r_created_by = ''admin''\<rparr>]))"
proof (intro conjI impI)
  assume "readFile s folder file = Resolved (Some newContent)"
  then show "recordRevision faults s folder file newContent revision now = (Resolved (), s)"
    by (rule recordRevision_same)
next
  assume a: "ids_truthy s \<and>
    recordRevision faults s folder file newContent revision now = (Resolved (), s')"
  then have "readFile s' folder file = Resolved (Some newContent)"
    using readFile_after_recordRevision by blast
  then show "recordRevision faults' s' folder file newContent revision' now' = (Resolved (), s')"
    by (rule recordRevision_same)
next
  assume a: "ids_truthy s \<and>
    recordRevision faults s folder file newContent revision now = (Resolved (), s')"
  show "ghost_revisions s' =
        (if readFile s folder file = Resolved (Some newContent) then ghost_revisions s
         else ghost_revisions s @
           [\<lparr>r_id = Suc (revisions_seq s),
             r_content_id = (case select_where s folder file of
                               [] \<Rightarrow> None | c # _ \<Rightarrow> Some (c_id c)),
             r_revision = revision, r_created_on = now, r_created_by = ''admin''\<rparr>])"
  proof (cases "readFile s folder file = Resolved (Some newContent)")
    case True
    with a have "s' = s"
      by (simp add: recordRevision_same)
    with True show ?thesis by simp
  next
    case False
    with a have "transaction faults s (upsert s folder file newContent)
       (case select_where s folder file of [] \<Rightarrow> None | c # _ \<Rightarrow> Some (c_id c))
       revision now folder = (Resolved (), s')"
      by (simp add: recordRevision_differs)
    then show ?thesis
      using False
      by (simp add: ghost_revisions_transaction ghost_revisions_upsert revisions_seq_upsert)
  qed
qed

theorem recordRevision_identical_noop_witness:
  "recordRevision busy example_store ''flows'' ''a.json'' ''v1'' ''r-3'' 30
     = (Resolved (), example_store) \<and>
   recordRevision busy
     (snd (recordRevision no_faults example_store ''flows'' ''a.json'' ''v2'' ''r-3'' 30))
     ''flows'' ''a.json'' ''v2'' ''r-4'' 40 =
     (Resolved (), snd (recordRevision no_faults example_store ''flows'' ''a.json'' ''v2'' ''r-3'' 30)) \<and>
   ghost_revisions (snd (recordRevision no_faults example_store ''flows'' ''a.json'' ''v2'' ''r-3'' 30)) =
     ghost_revisions example_store @
       [\<lparr>r_id = 3, r_content_id = Some 1, r_revision = ''r-3'', r_created_on = 30,
         r_created_by = ''admin''\<rparr>]"
proof -
  let ?s' = "snd (recordRevision no_faults example_store ''flows'' ''a.json'' ''v2'' ''r-3'' 30)"
  have h0: "readFile example_store ''flows'' ''a.json'' = Resolved (Some ''v1'')"
    by code_simp
  have h1: "ids_truthy example_store"
    by code_simp
  have "fst (recordRevision no_faults example_store ''flows'' ''a.json'' ''v2'' ''r-3'' 30) = Resolved ()"
    by code_simp
  then have h2: "recordRevision no_faults example_store ''flows'' ''a.json'' ''v2'' ''r-3'' 30 =
      (Resolved (), ?s')"
    by (simp add: prod_eq_iff)
  have sel: "select_where example_store ''flows'' ''a.json'' =
      [\<lparr>c_id = 1, c_folder = ''flows'', c_file = ''a.json'', c_content = Some ''v1'',
          c_deleted = False\<rparr>]"
    by code_simp
  have seq: "revisions_seq example_store = 2"
    by (simp add: example_store_def)
  from recordRevision_identical_noop[of example_store "''flows''" "''a.json''" "''v1''" busy
      "''r-3''" 30] h0
  have a: "recordRevision busy example_store ''flows'' ''a.json'' ''v1'' ''r-3'' 30
     = (Resolved (), example_store)"
    by simp
  from recordRevision_identical_noop[of example_store "''flows''" "''a.json''" "''v2''" no_faults
      "''r-3''" 30 ?s' busy "''r-4''" 40] h0 h1 h2 sel seq
  have b: "recordRevision busy ?s' ''flows'' ''a.json'' ''v2'' ''r-4'' 40 = (Resolved (), ?s') \<and>
     ghost_revisions ?s' = ghost_revisions example_store @
       [\<lparr>r_id = 3, r_content_id = Some 1, r_revision = ''r-3'', r_created_on = 30,
         r_created_by = ''admin''\<rparr>]"
    by simp
  from a b show ?thesis
    by simp
qed

subsection \<open>Deleting\<close>

text \<open>
  Claim C6. \<open>deleteFile\<close> of a file with no row, or whose rows are all tombstones,
  is rejected with the error that the file could not be found, and the store (so the
  revision log too) is as before.
\<close>

theorem deleteFile_not_found:
  assumes "\<forall>c\<in>set (ghost_content s). c_folder c = folder \<and> c_file c = file \<longrightarrow> c_deleted c"
  shows "deleteFile faults s folder file revision now =
           (Rejected (Error (''Can't delete file: '' @ file
              @ '': couldn't find it in folder: '' @ folder)), s)"
proof -
  have "filter (\<lambda>c. c_deleted c = False) (select_where s folder file) = []"
    using assms by (auto simp: select_where_def filter_empty_conv)
  then show ?thesis
    by (simp add: deleteFile_def)
qed

theorem deleteFile_not_found_witness:
  "deleteFile no_faults example_store ''flows'' ''b.json'' ''r-3'' 30 =
     (Rejected (Error ''Can't delete file: b.json: couldn't find it in folder: flows''),
      example_store) \<and>
   deleteFile no_faults example_store ''flows'' ''zzz.json'' ''r-3'' 30 =
     (Rejected (Error ''Can't delete file: zzz.json: couldn't find it in folder: flows''),
      example_store)"
proof -
  have b: "\<forall>c\<in>set (ghost_content example_store).
      c_folder c = ''flows'' \<and> c_file c = ''b.json'' \<longrightarrow> c_deleted c"
    by (simp add: example_store_def)
  have z: "\<forall>c\<in>set (ghost_content example_store).
      c_folder c = ''flows'' \<and> c_file c = ''zzz.json'' \<longrightarrow> c_deleted c"
    by (simp add: example_store_def)
  from deleteFile_not_found[OF b, of no_faults "''r-3''" 30]
    deleteFile_not_found[OF z, of no_faults "''r-3''" 30]
  show ?thesis
    by simp
qed

lemma keys_unique_eq:
  assumes "keys_unique s" "c \<in> set (ghost_content s)" "d \<in> set (ghost_content s)"
    "c_folder c = c_folder d" "c_file c = c_file d"
  shows "c = d"
proof -
  from assms(1) have "inj_on (\<lambda>c. (c_folder c, c_file c)) (set (ghost_content s))"
    by (simp add: keys_unique_def distinct_map)
  with assms(2-5) show ?thesis
    by (auto dest: inj_onD)
qed

lemma deleteFile_resolved:
  assumes "deleteFile faults s folder file revision now = (Resolved (), s')"
  obtains c where "c \<in> set (ghost_content s)" "c_folder c = folder" "c_file c = file"
    "ghost_content s' =
       map (\<lambda>d. if c_id d = c_id c then d\<lparr>c_deleted := True, c_content := None\<rparr> else d)
           (ghost_content s)"
proof (cases "filter (\<lambda>c. c_deleted c = False) (select_where s folder file)")
  case Nil
  with assms show ?thesis
    by (simp add: deleteFile_def)
next
  case (Cons c rest)
  then have "c \<in> set (filter (\<lambda>c. c_deleted c = False) (select_where s folder file))"
    by simp
  then have c: "c \<in> set (ghost_content s)" "c_folder c = folder" "c_file c = file"
    by (auto simp: select_where_def)
  from assms Cons have "ghost_content s' =
       map (\<lambda>d. if c_id d = c_id c then d\<lparr>c_deleted := True, c_content := None\<rparr> else d)
           (ghost_content s)"
    by (auto simp: deleteFile_def Let_def dest!: ghost_content_transaction split: if_splits)
  with c show ?thesis
    by (rule that)
qed

text \<open>
  Claim C7. After \<open>deleteFile(folder, file)\<close> has resolved, \<open>directoryListing\<close> of
  the folder does not give the file, for every pattern and every \<open>LIKE\<close>, while a row
  of the file remains, deleted and with null content. The store has one row per folder
  and file.
\<close>

theorem deleteFile_then_directoryListing:
  assumes "keys_unique s"
      and "deleteFile faults s folder file revision now = (Resolved (), s')"
  shows "file \<notin> set (directoryListing like s' folder fileEndingPattern) \<and>
         (\<exists>c\<in>set (ghost_content s'). c_folder c = folder \<and> c_file c = file \<and>
            c_deleted c \<and> c_content c = None)"
proof -
  from assms(2) obtain c where c: "c \<in> set (ghost_content s)" "c_folder c = folder"
      "c_file c = file"
    and s': "ghost_content s' =
       map (\<lambda>d. if c_id d = c_id c then d\<lparr>c_deleted := True, c_content := None\<rparr> else d)
           (ghost_content s)"
    by (rule deleteFile_resolved)
  have all: "c_deleted e" if "e \<in> set (ghost_content s')" "c_folder e = folder" "c_file e = file" for e
  proof -
    from that(1) s' obtain d where d: "d \<in> set (ghost_content s)"
      "e = (if c_id d = c_id c then d\<lparr>c_deleted := True, c_content := None\<rparr> else d)"
      by auto
    with that(2,3) have "c_folder d = folder" "c_file d = file"
      by (auto split: if_splits)
    with assms(1) c d(1) have "d = c"
      by (auto intro: keys_unique_eq)
    with d(2) show ?thesis by simp
  qed
  have "c\<lparr>c_deleted := True, c_content := None\<rparr> \<in> set (ghost_content s')"
    using c(1) s' by force
  with c(2,3) have ex: "\<exists>c\<in>set (ghost_content s'). c_folder c = folder \<and> c_file c = file \<and>
            c_deleted c \<and> c_content c = None"
    by (intro bexI[of _ "c\<lparr>c_deleted := True, c_content := None\<rparr>"]) simp_all
  from all have "file \<notin> set (directoryListing like s' folder fileEndingPattern)"
    by (auto simp: directoryListing_def)
  with ex show ?thesis by simp
qed

theorem deleteFile_then_directoryListing_witness:
  "keys_unique example_store \<and>
   fst (deleteFile no_faults example_store ''flows'' ''a.json'' ''r-3'' 30) = Resolved () \<and>
   ''a.json'' \<notin> set (directoryListing (\<lambda>name pattern. True)
      (snd (deleteFile no_faults example_store ''flows'' ''a.json'' ''r-3'' 30)) ''flows'' ''.json'')"
proof -
  have h1: "keys_unique example_store"
    by code_simp
  have r: "fst (deleteFile no_faults example_store ''flows'' ''a.json'' ''r-3'' 30) = Resolved ()"
    by code_simp
  then have h2: "deleteFile no_faults example_store ''flows'' ''a.json'' ''r-3'' 30 =
      (Resolved (), snd (deleteFile no_faults example_store ''flows'' ''a.json'' ''r-3'' 30))"
    by (simp add: prod_eq_iff)
  from deleteFile_then_directoryListing[OF h1 h2, of "\<lambda>name pattern. True" "''.json''"] h1 r
  show ?thesis
    by simp
qed

subsection \<open>A refused statement\<close>

lemma upsert_frame:
  "pendingRevisionsByFolder (upsert s folder file content) = pendingRevisionsByFolder s \<and>
   trackedFolders (upsert s folder file content) = trackedFolders s \<and>
   logged (upsert s folder file content) = logged s"
  by (simp add: upsert_def Let_def split: list.splits)







subsection \<open>Revisions without a content row\<close>

lemma getPendingRevisions_set:
  "set (getPendingRevisions s folder) =
     {\<lparr>p_file = c_file c, p_id = r_id r, p_revision = r_revision r,
       p_created_on = r_created_on r, p_created_by = r_created_by r\<rparr> | r c.
      r \<in> set (ghost_revisions s) \<and> c \<in> set (ghost_content s) \<and>
      r_content_id r = Some (c_id c) \<and> c_folder c = folder}"
  by (auto simp: getPendingRevisions_def)

lemma getPendingRevisions_snoc_null:
  "r_content_id r = None \<Longrightarrow>
   getPendingRevisions (s\<lparr>ghost_revisions := revs @ [r]\<rparr>) folder =
   getPendingRevisions (s\<lparr>ghost_revisions := revs\<rparr>) folder"
  by (simp add: getPendingRevisions_def)

lemma pending_transaction:
  "transaction faults s written cid revision now folder = (Resolved (), s') \<Longrightarrow>
   pendingRevisionsByFolder s' =
     (pendingRevisionsByFolder written)(folder \<mapsto> getPendingRevisions s' folder)"
  by (auto simp: transaction_def updatePendingForFolder_def getPendingRevisions_def
           insert_revision_def split: option.splits)

lemma pending_upsert:
  "pendingRevisionsByFolder (upsert s folder file content) = pendingRevisionsByFolder s"
  by (simp add: upsert_def Let_def split: list.splits)

text \<open>
  In every store, a row of the pending query comes from a revision with a content id.
\<close>

lemma pending_row_has_content_id:
  assumes "p \<in> set (getPendingRevisions t f)"
  shows "\<exists>r\<in>set (ghost_revisions t).
           r_content_id r \<noteq> None \<and> p_id p = r_id r \<and> p_revision p = r_revision r"
  using assms by (auto simp: getPendingRevisions_set)

subsection \<open>The lines of the manifest\<close>

lemma split_not_Nil: "split sep xs \<noteq> []"
  by (induction xs) (auto split: list.splits)

lemma split_append:
  "split sep (xs @ ys) =
     butlast (split sep xs) @ [last (split sep xs) @ hd (split sep ys)] @ tl (split sep ys)"
proof (induction xs)
  case Nil
  then show ?case
    by (simp add: split_not_Nil)
next
  case (Cons c xs)
  then show ?case
    by (cases "split sep xs") (auto simp: split_not_Nil split: list.splits)
qed

lemma split_chars: "l \<in> set (split sep xs) \<Longrightarrow> set l \<subseteq> set xs"
proof (induction xs arbitrary: l)
  case Nil
  then show ?case by simp
next
  case (Cons c xs)
  show ?case
  proof (cases "split sep xs")
    case Nil
    then show ?thesis
      by (simp add: split_not_Nil)
  next
    case (Cons k ks)
    with Cons.IH have "set k \<subseteq> set xs" "\<And>l. l \<in> set ks \<Longrightarrow> set l \<subseteq> set xs"
      by simp_all
    with Cons Cons.prems show ?thesis
      by (fastforce split: if_splits)
  qed
qed

lemma trim_blank:
  assumes "list_all isWhiteSpace a"
  shows "trim a = []"
proof -
  from assms have blank: "dropWhile isWhiteSpace a = []"
    by (simp add: list_all_iff dropWhile_eq_Nil_conv)
  show ?thesis
    by (simp only: trim_def blank rev.simps dropWhile.simps)
qed

lemma trim_blank_prefix:
  assumes "list_all isWhiteSpace a"
  shows "trim (a @ s) = trim s"
proof -
  have "dropWhile isWhiteSpace (a @ s) = dropWhile isWhiteSpace s"
    by (rule dropWhile_append2) (use assms in \<open>simp add: list_all_iff\<close>)
  then show ?thesis
    by (simp add: trim_def)
qed

lemma trim_blank_suffix:
  assumes "list_all isWhiteSpace b"
  shows "trim (s @ b) = trim s"
proof (cases "list_all isWhiteSpace s")
  case True
  with assms have "list_all isWhiteSpace (s @ b)" by simp
  with True show ?thesis
    by (simp only: trim_blank)
next
  case False
  then obtain x where "x \<in> set s" "\<not> isWhiteSpace x"
    by (auto simp: list_all_iff)
  then have "dropWhile isWhiteSpace (s @ b) = dropWhile isWhiteSpace s @ b"
    by (simp add: dropWhile_append1)
  moreover have "dropWhile isWhiteSpace (rev b @ t) = dropWhile isWhiteSpace t" for t
    by (rule dropWhile_append2) (use assms in \<open>simp add: list_all_iff\<close>)
  ultimately show ?thesis
    by (simp add: trim_def)
qed

lemma trim_decompose:
  "\<exists>a b. list_all isWhiteSpace a \<and> list_all isWhiteSpace b \<and> s = a @ trim s @ b"
proof -
  let ?d = "dropWhile isWhiteSpace s"
  have "rev ?d = takeWhile isWhiteSpace (rev ?d) @ dropWhile isWhiteSpace (rev ?d)"
    by simp
  then have "?d = rev (dropWhile isWhiteSpace (rev ?d)) @ rev (takeWhile isWhiteSpace (rev ?d))"
    by (metis rev_append rev_rev_ident)
  then have "s = takeWhile isWhiteSpace s @ trim s @ rev (takeWhile isWhiteSpace (rev ?d))"
    by (metis takeWhile_dropWhile_id trim_def)
  moreover have "list_all isWhiteSpace (takeWhile isWhiteSpace s)"
    by (auto simp: list_all_iff dest: set_takeWhileD)
  moreover have "list_all isWhiteSpace (rev (takeWhile isWhiteSpace (rev ?d)))"
    by (auto simp: list_all_iff dest: set_takeWhileD)
  ultimately show ?thesis by blast
qed

lemma blank_lines:
  assumes "list_all isWhiteSpace a" "l \<in> set (split sep a)"
  shows "list_all isWhiteSpace l"
  using assms split_chars[of l sep a] by (auto simp: list_all_iff)

lemma tokens_blank_prefix:
  assumes "list_all isWhiteSpace a"
  shows "trim ` set (split sep (a @ m)) - {[]} = trim ` set (split sep m) - {[]}"
proof -
  let ?A = "split sep a" and ?M = "split sep m"
  have A: "trim l = []" if "l \<in> set ?A" for l
    using assms that by (auto intro: trim_blank blank_lines)
  have "last ?A \<in> set ?A"
    by (simp add: split_not_Nil)
  then have "list_all isWhiteSpace (last ?A)"
    using assms by (rule blank_lines[rotated])
  then have hd: "trim (last ?A @ hd ?M) = trim (hd ?M)"
    by (rule trim_blank_prefix)
  have "trim ` set (split sep (a @ m)) =
          trim ` set (butlast ?A) \<union> {trim (hd ?M)} \<union> trim ` set (tl ?M)"
    by (simp add: split_append hd image_Un Un_commute insert_commute)
  moreover have "trim ` set (butlast ?A) \<subseteq> {[]}"
    using A by (auto dest: in_set_butlastD)
  moreover have "set ?M = {hd ?M} \<union> set (tl ?M)"
    by (cases ?M) (auto simp: split_not_Nil)
  ultimately show ?thesis
    by auto
qed

lemma tokens_blank_suffix:
  assumes "list_all isWhiteSpace b"
  shows "trim ` set (split sep (m @ b)) - {[]} = trim ` set (split sep m) - {[]}"
proof -
  let ?B = "split sep b" and ?M = "split sep m"
  have B: "trim l = []" if "l \<in> set ?B" for l
    using assms that by (auto intro: trim_blank blank_lines)
  have "hd ?B \<in> set ?B"
    by (simp add: split_not_Nil)
  then have "list_all isWhiteSpace (hd ?B)"
    using assms by (rule blank_lines[rotated])
  then have lst: "trim (last ?M @ hd ?B) = trim (last ?M)"
    by (rule trim_blank_suffix)
  have "trim ` set (split sep (m @ b)) =
          trim ` set (butlast ?M) \<union> {trim (last ?M)} \<union> trim ` set (tl ?B)"
    by (simp add: split_append lst image_Un Un_commute insert_commute)
  moreover have "set (tl ?B) \<subseteq> set ?B"
    by (cases ?B) auto
  then have "trim ` set (tl ?B) \<subseteq> {[]}"
    using B by auto
  moreover have "set ?M = set (butlast ?M) \<union> {last ?M}"
    using split_not_Nil[of sep m] by (metis append_butlast_last_id list.set(1,2) set_append Un_insert_right sup_bot.right_neutral)
  ultimately show ?thesis
    by auto
qed

lemma tokens_trim:
  "trim ` set (split sep (trim s)) - {[]} = trim ` set (split sep s) - {[]}"
proof -
  obtain a b where ab: "list_all isWhiteSpace a" "list_all isWhiteSpace b" "s = a @ trim s @ b"
    using trim_decompose by blast
  have "trim ` set (split sep (a @ (trim s @ b))) - {[]} = trim ` set (split sep (trim s @ b)) - {[]}"
    using ab(1) by (rule tokens_blank_prefix)
  also have "\<dots> = trim ` set (split sep (trim s)) - {[]}"
    using ab(2) by (rule tokens_blank_suffix)
  finally show ?thesis
    using ab(3) by simp
qed

lemma set_parseRevisions:
  "set (parseRevisions content) =
     {t. \<exists>l\<in>set (split CHR 0x0A content). t = trim l \<and> t \<noteq> [] \<and> \<not> startsWith t CHR ''#''}"
proof -
  have "set (parseRevisions content) =
          {t \<in> trim ` set (split CHR 0x0A (trim content)) - {[]}. \<not> startsWith t CHR ''#''}"
    by (auto simp: parseRevisions_def)
  also have "\<dots> = {t \<in> trim ` set (split CHR 0x0A content) - {[]}. \<not> startsWith t CHR ''#''}"
    by (simp only: tokens_trim)
  also have "\<dots> = {t. \<exists>l\<in>set (split CHR 0x0A content). t = trim l \<and> t \<noteq> [] \<and> \<not> startsWith t CHR ''#''}"
    by auto
  finally show ?thesis .
qed

text \<open>
  The same tokens, without \<open>split\<close> and \<open>trim\<close>: a token is a line of the text
  without the white space around it, when that is not empty and does not start with
  \<open>#\<close>.
\<close>

lemma split_line:
  "sep \<notin> set l \<Longrightarrow> split sep l = [l]"
  by (induction l) (auto split: list.splits)

lemma split_line_rest:
  "sep \<notin> set l \<Longrightarrow> split sep (l @ sep # rest) = l # split sep rest"
  by (induction l) (auto split: list.splits)

lemma split_join_lines:
  assumes "\<forall>l\<in>set ls. CHR 0x0A \<notin> set l" and "ls \<noteq> []"
  shows "split CHR 0x0A (join_lines ls) = ls"
  using assms
proof (induction ls rule: join_lines.induct)
  case 1
  then show ?case by simp
next
  case (2 l)
  then show ?case by (simp add: split_line)
next
  case (3 l k ls)
  then show ?case by (simp add: split_line_rest)
qed

lemma trim_ends:
  assumes "trim l \<noteq> []"
  shows "\<not> isWhiteSpace (hd (trim l)) \<and> \<not> isWhiteSpace (last (trim l))"
proof -
  let ?d = "dropWhile isWhiteSpace l"
  let ?e = "dropWhile isWhiteSpace (rev ?d)"
  from assms have e: "?e \<noteq> []"
    by (simp add: trim_def)
  have "?d = [] \<Longrightarrow> ?e = []"
    by (simp only: rev.simps dropWhile.simps)
  with e have d: "?d \<noteq> []"
    by blast
  have "\<not> isWhiteSpace (hd ?e)"
    using e by (rule hd_dropWhile)
  then have l: "\<not> isWhiteSpace (last (trim l))"
    using e by (simp add: trim_def last_rev)
  have "last ?e = last (rev ?d)"
    using e by (metis last_appendR takeWhile_dropWhile_id)
  then have "hd (trim l) = hd ?d"
    using e d by (simp add: trim_def hd_rev last_rev)
  moreover have "\<not> isWhiteSpace (hd ?d)"
    using d by (rule hd_dropWhile)
  ultimately show ?thesis
    using l by simp
qed

lemma trim_fixed:
  assumes "t \<noteq> []" "\<not> isWhiteSpace (hd t)" "\<not> isWhiteSpace (last t)"
  shows "trim t = t"
proof -
  have keep: "dropWhile isWhiteSpace xs = xs" if "xs \<noteq> []" "\<not> isWhiteSpace (hd xs)" for xs
    using that by (cases xs) simp_all
  from assms(1,2) have "dropWhile isWhiteSpace t = t"
    by (rule keep)
  moreover from assms(1,3) have "dropWhile isWhiteSpace (rev t) = rev t"
    by (intro keep) (simp_all add: hd_rev)
  ultimately show ?thesis
    by (simp add: trim_def)
qed

lemma startsWith_hd: "t \<noteq> [] \<Longrightarrow> startsWith t c = (hd t = c)"
  by (cases t) (simp_all add: startsWith_def)

lemma trim_unique:
  assumes "l = a @ t @ b" "list_all isWhiteSpace a" "list_all isWhiteSpace b"
      and "t \<noteq> []" "\<not> isWhiteSpace (hd t)" "\<not> isWhiteSpace (last t)"
  shows "trim l = t"
proof -
  have "trim l = trim (t @ b)"
    using assms(1,2) by (simp add: trim_blank_prefix)
  also have "\<dots> = trim t"
    using assms(3) by (rule trim_blank_suffix)
  also have "\<dots> = t"
    using assms(4-6) by (rule trim_fixed)
  finally show ?thesis .
qed

lemma tokens_of_lines:
  assumes "\<forall>l\<in>set ls. CHR 0x0A \<notin> set l"
  shows "set (parseRevisions (join_lines ls)) =
     {t. t \<noteq> [] \<and> \<not> isWhiteSpace (hd t) \<and> \<not> isWhiteSpace (last t) \<and> hd t \<noteq> CHR ''#'' \<and>
         (\<exists>l\<in>set ls. \<exists>a b. l = a @ t @ b \<and> list_all isWhiteSpace a \<and> list_all isWhiteSpace b)}"
    (is "?L = ?R")
proof (cases "ls = []")
  case True
  have "set (parseRevisions []) = {}"
    by (simp add: set_parseRevisions trim_def)
  with True show ?thesis by simp
next
  case False
  with assms have lines: "split CHR 0x0A (join_lines ls) = ls"
    by (rule split_join_lines)
  have L: "?L = {t. \<exists>l\<in>set ls. t = trim l \<and> t \<noteq> [] \<and> \<not> startsWith t CHR ''#''}"
    by (simp add: set_parseRevisions lines)
  show ?thesis
  proof (intro set_eqI iffI)
    fix t assume "t \<in> ?L"
    with L obtain l where l: "l \<in> set ls" "t = trim l" "t \<noteq> []" "\<not> startsWith t CHR ''#''"
      by auto
    obtain a b where "list_all isWhiteSpace a" "list_all isWhiteSpace b" "l = a @ trim l @ b"
      using trim_decompose by blast
    moreover from l have "\<not> isWhiteSpace (hd t) \<and> \<not> isWhiteSpace (last t)"
      using trim_ends by simp
    moreover from l(3,4) have "hd t \<noteq> CHR ''#''"
      by (simp add: startsWith_hd)
    ultimately show "t \<in> ?R"
      using l by blast
  next
    fix t assume "t \<in> ?R"
    then obtain l a b where t: "t \<noteq> []" "\<not> isWhiteSpace (hd t)" "\<not> isWhiteSpace (last t)"
        "hd t \<noteq> CHR ''#''" "l \<in> set ls" "l = a @ t @ b"
        "list_all isWhiteSpace a" "list_all isWhiteSpace b"
      by blast
    then have "trim l = t"
      by (intro trim_unique[of l a t b])
    moreover from t(1,4) have "\<not> startsWith t CHR ''#''"
      by (simp add: startsWith_hd)
    ultimately show "t \<in> ?L"
      using t L by blast
  qed
qed

subsection \<open>Upserting the files of a folder\<close>

lemma content_ids_ok_truthy: "content_ids_ok s \<Longrightarrow> ids_truthy s"
  by (auto simp: content_ids_ok_def ids_truthy_def list_all_iff)

lemma map_c_id_update:
  "map c_id (map (\<lambda>c. if P c then c\<lparr>c_content := v\<rparr> else c) xs) = map c_id xs"
  by (induction xs) auto

lemma content_ids_ok_upsert:
  assumes "content_ids_ok s"
  shows "content_ids_ok (upsert s folder file content)"
proof (cases "select_where s folder file")
  case Nil
  with assms show ?thesis
    by (fastforce simp: upsert_def content_ids_ok_def list_all_iff)
next
  case (Cons c rest)
  then have "c \<in> set (ghost_content s)"
    by (rule select_where_mem)
  with assms have "c_id c \<noteq> 0"
    by (auto simp: content_ids_ok_def list_all_iff)
  with Cons have "ghost_content (upsert s folder file content) =
      map (\<lambda>d. if c_id d = c_id c then d\<lparr>c_content := Some content\<rparr> else d) (ghost_content s)"
    and "content_seq (upsert s folder file content) = content_seq s"
    by (simp_all add: upsert_def)
  moreover have "list_all (\<lambda>c. 0 < c_id c \<and> c_id c \<le> n)
      (map (\<lambda>d. if P d then d\<lparr>c_content := v\<rparr> else d) xs) =
      list_all (\<lambda>c. 0 < c_id c \<and> c_id c \<le> n) xs" for n P v xs
    by (induction xs) auto
  ultimately have "map c_id (ghost_content (upsert s folder file content)) =
        map c_id (ghost_content s)"
    and "list_all (\<lambda>c. 0 < c_id c \<and> c_id c \<le> content_seq (upsert s folder file content))
          (ghost_content (upsert s folder file content)) =
        list_all (\<lambda>c. 0 < c_id c \<and> c_id c \<le> content_seq s) (ghost_content s)"
    by (simp_all only: map_c_id_update)
  with assms show ?thesis
    by (simp only: content_ids_ok_def)
qed

lemma content_ids_ok_id_eq:
  assumes "content_ids_ok s" "c \<in> set (ghost_content s)" "d \<in> set (ghost_content s)"
    "c_id c = c_id d"
  shows "c = d"
proof -
  from assms(1) have "inj_on c_id (set (ghost_content s))"
    by (simp add: content_ids_ok_def distinct_map)
  with assms(2-4) show ?thesis
    by (auto dest: inj_onD)
qed

lemma select_where_upsert_other:
  assumes "content_ids_ok s" and "(folder', file') \<noteq> (folder, file)"
  shows "select_where (upsert s folder' file' content) folder file = select_where s folder file"
proof (cases "select_where s folder' file'")
  case Nil
  with assms(2) show ?thesis
    by (auto simp: upsert_def select_where_def)
next
  case (Cons c rest)
  then have c: "c \<in> set (ghost_content s)"
    by (rule select_where_mem)
  from Cons have "c \<in> set (select_where s folder' file')"
    by simp
  then have key: "c_folder c = folder'" "c_file c = file'"
    by (auto simp: select_where_def)
  from c assms(1) have "c_id c \<noteq> 0"
    by (auto simp: content_ids_ok_def list_all_iff)
  with Cons have "select_where (upsert s folder' file' content) folder file =
      map (\<lambda>d. if c_id d = c_id c then d\<lparr>c_content := Some content\<rparr> else d)
        (select_where s folder file)"
    by (simp add: upsert_def select_where_def filter_key_map_content)
  also have "\<dots> = map (\<lambda>d. d) (select_where s folder file)"
  proof (rule map_cong[OF refl])
    fix d assume "d \<in> set (select_where s folder file)"
    then have d: "d \<in> set (ghost_content s)" "c_folder d = folder" "c_file d = file"
      by (auto simp: select_where_def)
    with key assms(2) have "d \<noteq> c" by auto
    with assms(1) c d(1) have "c_id d \<noteq> c_id c"
      by (auto dest: content_ids_ok_id_eq)
    then show "(if c_id d = c_id c then d\<lparr>c_content := Some content\<rparr> else d) = d"
      by simp
  qed
  finally show ?thesis by simp
qed

lemma readFile_upsert_other:
  assumes "content_ids_ok s" and "(folder', file') \<noteq> (folder, file)"
  shows "readFile (upsert s folder' file' content) folder file = readFile s folder file"
  using assms by (simp add: readFile_def select_where_upsert_other)

lemma map_key_update:
  "map (\<lambda>c. (c_folder c, c_file c)) (map (\<lambda>c. if P c then c\<lparr>c_content := v\<rparr> else c) xs) =
   map (\<lambda>c. (c_folder c, c_file c)) xs"
  by (induction xs) auto

lemma keys_upsert:
  assumes "ids_truthy s"
  shows "keys (upsert s folder file content) = insert (folder, file) (keys s)"
proof (cases "select_where s folder file")
  case Nil
  then show ?thesis
    by (auto simp: upsert_def keys_def)
next
  case (Cons c rest)
  then have c: "c \<in> set (ghost_content s)"
    by (rule select_where_mem)
  from Cons have "c \<in> set (select_where s folder file)"
    by simp
  then have key: "c_folder c = folder" "c_file c = file"
    by (auto simp: select_where_def)
  from c assms have "c_id c \<noteq> 0"
    by (auto simp: ids_truthy_def list_all_iff)
  with Cons have "ghost_content (upsert s folder file content) =
      map (\<lambda>d. if c_id d = c_id c then d\<lparr>c_content := Some content\<rparr> else d) (ghost_content s)"
    by (simp add: upsert_def)
  then have "keys (upsert s folder file content) = keys s"
    by (simp only: keys_def map_key_update)
  moreover from c key have "(folder, file) \<in> keys s"
    by (force simp: keys_def)
  ultimately show ?thesis by auto
qed

lemma recordFiles_frame:
  "ghost_revisions (snd (recordFiles env fp folder files s)) = ghost_revisions s \<and>
   revisions_seq (snd (recordFiles env fp folder files s)) = revisions_seq s \<and>
   pendingRevisionsByFolder (snd (recordFiles env fp folder files s)) = pendingRevisionsByFolder s \<and>
   trackedFolders (snd (recordFiles env fp folder files s)) = trackedFolders s \<and>
   logged (snd (recordFiles env fp folder files s)) = logged s"
proof (induction files arbitrary: s)
  case Nil
  then show ?case by simp
next
  case (Cons name rest)
  have "ghost_revisions (upsert s folder name content) = ghost_revisions s \<and>
        revisions_seq (upsert s folder name content) = revisions_seq s \<and>
        pendingRevisionsByFolder (upsert s folder name content) = pendingRevisionsByFolder s \<and>
        trackedFolders (upsert s folder name content) = trackedFolders s \<and>
        logged (upsert s folder name content) = logged s" for content
    by (simp add: upsert_def Let_def split: list.splits)
  with Cons show ?case
    by (auto simp: recordFile_def split: sum.splits)
qed

lemma recordFiles_readFile_other:
  assumes "content_ids_ok s" and "file \<notin> set files"
  shows "readFile (snd (recordFiles env fp folder files s)) folder file = readFile s folder file"
  using assms
proof (induction files arbitrary: s)
  case Nil
  then show ?case by simp
next
  case (Cons g rest)
  then have "(folder, g) \<noteq> (folder, file)" by auto
  with Cons show ?case
    by (auto simp: recordFile_def content_ids_ok_upsert readFile_upsert_other split: sum.splits)
qed

lemma recordFiles_all_read:
  assumes "content_ids_ok s"
      and "\<forall>f\<in>set files. readFileAsync env (path_join env fp f) = Inr (raw f)"
  shows "fst (recordFiles env fp folder files s) = None \<and>
         (\<forall>f\<in>set files. readFile (snd (recordFiles env fp folder files s)) folder f
                          = Resolved (Some (raw f))) \<and>
         keys (snd (recordFiles env fp folder files s)) = keys s \<union> (\<lambda>f. (folder, f)) ` set files"
  using assms
proof (induction files arbitrary: s)
  case Nil
  then show ?case by simp
next
  case (Cons name rest)
  let ?s1 = "upsert s folder name (raw name)"
  from Cons.prems have step: "recordFiles env fp folder (name # rest) s =
      recordFiles env fp folder rest ?s1"
    by (simp add: recordFile_def)
  from Cons.prems have ok1: "content_ids_ok ?s1"
    by (simp add: content_ids_ok_upsert)
  with Cons.IH[of ?s1] Cons.prems
  have IH: "fst (recordFiles env fp folder rest ?s1) = None"
    "\<forall>f\<in>set rest. readFile (snd (recordFiles env fp folder rest ?s1)) folder f
                          = Resolved (Some (raw f))"
    "keys (snd (recordFiles env fp folder rest ?s1)) = keys ?s1 \<union> (\<lambda>f. (folder, f)) ` set rest"
    by simp_all
  have "readFile (snd (recordFiles env fp folder rest ?s1)) folder name = Resolved (Some (raw name))"
  proof (cases "name \<in> set rest")
    case True
    with IH(2) show ?thesis by simp
  next
    case False
    with ok1 have "readFile (snd (recordFiles env fp folder rest ?s1)) folder name =
        readFile ?s1 folder name"
      by (rule recordFiles_readFile_other)
    with Cons.prems(1) show ?thesis
      by (simp add: readFile_upsert content_ids_ok_truthy)
  qed
  moreover from Cons.prems(1) have "keys ?s1 = insert (folder, name) (keys s)"
    by (simp add: keys_upsert content_ids_ok_truthy)
  ultimately show ?case
    using IH step by auto
qed

subsection \<open>Registering a folder with pending revisions\<close>

lemma lookup_token:
  assumes "no_inherited_tokens s" and "p \<in> set (getPendingRevisions s folder)"
  shows "lookup knownRevisions (p_revision p) \<longleftrightarrow> p_revision p \<in> set knownRevisions"
proof -
  from assms(2) obtain r where "r \<in> set (ghost_revisions s)" "p_revision p = r_revision r"
    by (auto simp: getPendingRevisions_set)
  with assms(1) have "p_revision p \<notin> set Object_prototype"
    by (auto simp: no_inherited_tokens_def list_all_iff)
  then show ?thesis
    by (simp add: lookup_def)
qed

lemma concat_map_filter:
  "concat (map f (filter Q xs)) = concat (map (\<lambda>x. if Q x then f x else []) xs)"
  by (induction xs) auto

lemma filter_concat_map:
  "filter P (concat (map f xs)) = concat (map (\<lambda>x. filter P (f x)) xs)"
  by (induction xs) auto

lemma getPendingRevisions_joined:
  "getPendingRevisions s folder =
     sort_key (\<lambda>p. - int (p_created_on p)) (concat (map (joined s folder) (ghost_revisions s)))"
proof -
  have "joined s folder =
      (\<lambda>r. map (\<lambda>c. \<lparr>p_file = c_file c, p_id = r_id r, p_revision = r_revision r,
                p_created_on = r_created_on r, p_created_by = r_created_by r\<rparr>)
         (filter (\<lambda>c. r_content_id r = Some (c_id c) \<and> c_folder c = folder) (ghost_content s)))"
    by (rule ext) (simp add: joined_def)
  then show ?thesis
    by (simp add: getPendingRevisions_def)
qed

lemma joined_cong:
  "ghost_content s = ghost_content t \<Longrightarrow> joined s folder = joined t folder"
  by (rule ext) (simp add: joined_def)

lemma joined_filter:
  "filter (\<lambda>p. P (p_revision p)) (joined s folder r) =
     (if P (r_revision r) then joined s folder r else [])"
  by (simp add: joined_def filter_map comp_def)

lemma joined_id: "p \<in> set (joined s folder r) \<Longrightarrow> p_id p = r_id r \<and> p_revision p = r_revision r"
  by (auto simp: joined_def)

lemma pending_after_cleanup:
  assumes "revision_ids_unique s"
      and "ghost_content s' = ghost_content s"
      and "ghost_revisions s' =
             filter (\<lambda>r. r_id r \<notin> set (map p_id
                       (filter (\<lambda>p. known (p_revision p)) (getPendingRevisions s folder))))
                    (ghost_revisions s)"
  shows "getPendingRevisions s' folder =
           filter (\<lambda>p. \<not> known (p_revision p)) (getPendingRevisions s folder)"
proof -
  let ?del = "set (map p_id (filter (\<lambda>p. known (p_revision p)) (getPendingRevisions s folder)))"
  have inj: "inj_on r_id (set (ghost_revisions s))"
    using assms(1) by (simp add: revision_ids_unique_def distinct_map)
  have each: "(if r_id r \<notin> ?del then joined s folder r else []) =
              (if \<not> known (r_revision r) then joined s folder r else [])"
    if r: "r \<in> set (ghost_revisions s)" for r
  proof (cases "joined s folder r = []")
    case True
    then show ?thesis by simp
  next
    case False
    then obtain p where p: "p \<in> set (joined s folder r)"
      by (cases "joined s folder r") auto
    then have pr: "p_id p = r_id r" "p_revision p = r_revision r"
      by (auto dest: joined_id)
    from p r have pin: "p \<in> set (getPendingRevisions s folder)"
      by (auto simp: getPendingRevisions_joined)
    have "r_id r \<in> ?del \<longleftrightarrow> known (r_revision r)"
    proof
      assume "r_id r \<in> ?del"
      then obtain q where q: "q \<in> set (getPendingRevisions s folder)" "known (p_revision q)"
        "p_id q = r_id r"
        by auto
      then obtain r' where r': "r' \<in> set (ghost_revisions s)" "q \<in> set (joined s folder r')"
        by (auto simp: getPendingRevisions_joined)
      then have "p_id q = r_id r'" "p_revision q = r_revision r'"
        by (auto dest: joined_id)
      with q(3) inj r r'(1) have "r' = r"
        by (auto dest: inj_onD)
      with q(2) \<open>p_revision q = r_revision r'\<close> show "known (r_revision r)"
        by simp
    next
      assume "known (r_revision r)"
      with pin pr show "r_id r \<in> ?del"
        by force
    qed
    then show ?thesis by simp
  qed
  have "concat (map (joined s' folder) (ghost_revisions s')) =
        concat (map (\<lambda>r. if r_id r \<notin> ?del then joined s folder r else []) (ghost_revisions s))"
    using assms(3) by (simp add: concat_map_filter joined_cong[OF assms(2)])
  also have "\<dots> = concat (map (\<lambda>r. if \<not> known (r_revision r) then joined s folder r else [])
                       (ghost_revisions s))"
    using each by (auto intro!: arg_cong[where f = concat])
  also have "\<dots> = filter (\<lambda>p. \<not> known (p_revision p))
                     (concat (map (joined s folder) (ghost_revisions s)))"
    by (simp add: filter_concat_map joined_filter[where P = "\<lambda>t. \<not> known t"])
  finally show ?thesis
    by (simp add: getPendingRevisions_joined filter_sort)
qed

text \<open>
  Claim C1. When a folder is registered while the pending query gives a revision of the
  folder whose token is not in the manifest, \<open>addRootFolder\<close> resolves, leaves every
  row of \<open>ghost_content\<close> as it was, and sets the folder's pending revisions to
  exactly the rows of the pending query whose token is not in the manifest; with unique
  revision ids these are also the rows the pending query gives afterwards. The tokens
  in the table are not property names of \<open>Object.prototype\<close>.
\<close>

theorem addRootFolder_pending:
  assumes "fileRevisions env folderPath = Inr knownRevisions"
      and "no_inherited_tokens s"
      and "filter (\<lambda>p. p_revision p \<notin> set knownRevisions) (getPendingRevisions s folder) \<noteq> []"
  shows "\<exists>s'. addRootFolder env s folderPath folder filesGlob = (Resolved (), s') \<and>
           ghost_content s' = ghost_content s \<and>
           getPending s' folder =
             Some (filter (\<lambda>p. p_revision p \<notin> set knownRevisions) (getPendingRevisions s folder)) \<and>
           (revision_ids_unique s \<longrightarrow>
              getPendingRevisions s' folder =
                filter (\<lambda>p. p_revision p \<notin> set knownRevisions) (getPendingRevisions s folder))"
proof -
  let ?s1 = "s\<lparr>trackedFolders := trackedFolders s @ [folder]\<rparr>"
  let ?db = "getPendingRevisions s folder"
  let ?del = "filter (\<lambda>p. lookup knownRevisions (p_revision p)) ?db"
  let ?rem = "filter (\<lambda>p. \<not> lookup knownRevisions (p_revision p)) ?db"
  let ?revs = "filter (\<lambda>r. r_id r \<notin> set (map p_id ?del)) (ghost_revisions s)"
  let ?s2 = "?s1\<lparr>ghost_revisions := ?revs\<rparr>"
  let ?s' = "?s2\<lparr>pendingRevisionsByFolder := (pendingRevisionsByFolder ?s2)(folder \<mapsto> ?rem)\<rparr>"
  have db: "getPendingRevisions ?s1 folder = ?db"
    by (simp add: getPendingRevisions_def)
  have rem: "?rem = filter (\<lambda>p. p_revision p \<notin> set knownRevisions) ?db"
    using assms(2) by (auto intro!: filter_cong simp: lookup_token)
  have nodel: "?revs = ghost_revisions s" if "?del = []"
    using that by simp
  have run: "addRootFolder env s folderPath folder filesGlob = (Resolved (), ?s')"
  proof (cases "?del = []")
    case True
    with assms(1,3) rem nodel show ?thesis
      by (simp add: addRootFolder_def db Let_def)
  next
    case False
    with assms(1,3) rem show ?thesis
      by (simp add: addRootFolder_def db Let_def)
  qed
  have "getPendingRevisions ?s' folder = ?rem" if "revision_ids_unique s"
    using that by (intro pending_after_cleanup) simp_all
  with run rem show ?thesis
    by (simp add: getPending_def)
qed

theorem addRootFolder_pending_witness:
  "fileRevisions example_node ''/bot/flows'' = Inr [''r-1''] \<and>
   no_inherited_tokens example_store \<and>
   revision_ids_unique example_store \<and>
   fst (addRootFolder example_node example_store ''/bot/flows'' ''flows'' ''**/*.json'') = Resolved () \<and>
   ghost_content (snd (addRootFolder example_node example_store ''/bot/flows'' ''flows'' ''**/*.json''))
     = ghost_content example_store \<and>
   getPending (snd (addRootFolder example_node example_store ''/bot/flows'' ''flows'' ''**/*.json''))
     ''flows'' =
     Some [\<lparr>p_file = ''b.json'', p_id = 2, p_revision = ''r-2'', p_created_on = 20,
            p_created_by = ''admin''\<rparr>] \<and>
   getPendingRevisions
     (snd (addRootFolder example_node example_store ''/bot/flows'' ''flows'' ''**/*.json'')) ''flows'' =
     [\<lparr>p_file = ''b.json'', p_id = 2, p_revision = ''r-2'', p_created_on = 20,
       p_created_by = ''admin''\<rparr>]"
proof -
  have h1: "fileRevisions example_node ''/bot/flows'' = Inr [''r-1'']"
    by code_simp
  have h2: "no_inherited_tokens example_store"
    by code_simp
  have h4: "revision_ids_unique example_store"
    by code_simp
  have pending: "filter (\<lambda>p. p_revision p \<notin> set [''r-1''])
        (getPendingRevisions example_store ''flows'') =
      [\<lparr>p_file = ''b.json'', p_id = 2, p_revision = ''r-2'', p_created_on = 20,
        p_created_by = ''admin''\<rparr>]"
    by code_simp
  then have h3: "filter (\<lambda>p. p_revision p \<notin> set [''r-1''])
        (getPendingRevisions example_store ''flows'') \<noteq> []"
    by simp
  from addRootFolder_pending[OF h1 h2 h3, of "''**/*.json''"] pending h1 h2 h4
  show ?thesis
    by auto
qed

subsection \<open>Registering a folder without revisions\<close>

lemma fileRevisions_cases:
  "fileRevisions env folderPath =
     (case readFileAsync env (path_join env folderPath REVISIONS_FILE_NAME) of
        Inr content \<Rightarrow> Inr (parseRevisions content)
      | Inl e \<Rightarrow> if e = SystemError ''ENOENT'' then Inr [] else Inl e)"
  by (simp add: fileRevisions_def parseRevisions_def trim_def startsWith_def split: sum.splits)

lemma addRootFolder_no_revisions:
  assumes "fileRevisions env folderPath = Inr knownRevisions"
      and "getPendingRevisions s folder = []"
      and "globAsync env filesGlob folderPath = Inr files"
  shows "addRootFolder env s folderPath folder filesGlob =
           (case recordFiles env folderPath folder files
                   (s\<lparr>trackedFolders := trackedFolders s @ [folder]\<rparr>) of
              (Some e, s3) \<Rightarrow> (Rejected e, s3)
            | (None, s3) \<Rightarrow>
                (Resolved (),
                 s3\<lparr>ghost_content :=
                      filter (\<lambda>c. \<not> (c_file c \<notin> set files \<and> c_folder c = folder))
                             (ghost_content s3)\<rparr>))"
proof -
  have "getPendingRevisions (s\<lparr>trackedFolders := trackedFolders s @ [folder]\<rparr>) folder = []"
    using assms(2) by (simp add: getPendingRevisions_def)
  with assms(1,3) show ?thesis
    by (simp add: addRootFolder_def Let_def)
qed

lemma select_where_filter:
  assumes "\<And>c. c_folder c = folder \<Longrightarrow> c_file c = name \<Longrightarrow> Q c"
  shows "select_where (s\<lparr>ghost_content := filter Q (ghost_content s)\<rparr>) folder name =
           select_where s folder name"
proof -
  have "filter (\<lambda>c. c_folder c = folder \<and> c_file c = name) (filter Q xs) =
        filter (\<lambda>c. c_folder c = folder \<and> c_file c = name) xs" for xs
    using assms by (induction xs) auto
  then show ?thesis
    by (simp add: select_where_def)
qed

text \<open>
  The rows after a registration with no known and no pending revision: the file names
  of the folder's rows, tombstones among them, are the matched files.
\<close>

lemma resync_rows:
  assumes "fileRevisions env folderPath = Inr []"
      and "getPendingRevisions s folder = []"
      and "content_ids_ok s"
      and "globAsync env filesGlob folderPath = Inr files"
      and "\<forall>name\<in>set files. \<exists>content. readFileAsync env (path_join env folderPath name) = Inr content"
  shows "\<exists>s'. addRootFolder env s folderPath folder filesGlob = (Resolved (), s') \<and>
           {c_file c |c. c \<in> set (ghost_content s') \<and> c_folder c = folder} = set files \<and>
           (\<forall>name\<in>set files. \<forall>content.
              readFileAsync env (path_join env folderPath name) = Inr content \<longrightarrow>
              readFile s' folder name = Resolved (Some content)) \<and>
           ghost_revisions s' = ghost_revisions s"
proof -
  define raw where "raw name =
      (case readFileAsync env (path_join env folderPath name) of Inr content \<Rightarrow> content | Inl _ \<Rightarrow> [])"
    for name
  let ?s1 = "s\<lparr>trackedFolders := trackedFolders s @ [folder]\<rparr>"
  let ?s3 = "snd (recordFiles env folderPath folder files ?s1)"
  let ?s' = "?s3\<lparr>ghost_content :=
                filter (\<lambda>c. \<not> (c_file c \<notin> set files \<and> c_folder c = folder)) (ghost_content ?s3)\<rparr>"
  from assms(5) have reads: "\<forall>name\<in>set files. readFileAsync env (path_join env folderPath name) = Inr (raw name)"
    by (auto simp: raw_def)
  from assms(3) have ok1: "content_ids_ok ?s1"
    by (simp add: content_ids_ok_def)
  from recordFiles_all_read[OF ok1 reads, of folder]
  have none: "fst (recordFiles env folderPath folder files ?s1) = None"
    and read3: "\<forall>name\<in>set files. readFile ?s3 folder name = Resolved (Some (raw name))"
    and keys3: "keys ?s3 = keys ?s1 \<union> (\<lambda>name. (folder, name)) ` set files"
    by simp_all
  from none obtain s3 where rf: "recordFiles env folderPath folder files ?s1 = (None, s3)"
    by (metis prod.collapse)
  then have s3: "s3 = ?s3"
    by simp
  from assms(1,2,4) rf have "addRootFolder env s folderPath folder filesGlob =
      (Resolved (), s3\<lparr>ghost_content :=
                filter (\<lambda>c. \<not> (c_file c \<notin> set files \<and> c_folder c = folder)) (ghost_content s3)\<rparr>)"
    by (simp add: addRootFolder_no_revisions)
  then have run: "addRootFolder env s folderPath folder filesGlob = (Resolved (), ?s')"
    by (simp only: s3)
  have read': "readFile ?s' folder name = Resolved (Some (raw name))" if "name \<in> set files" for name
  proof -
    have "select_where ?s' folder name = select_where ?s3 folder name"
      by (rule select_where_filter) (use that in simp)
    then have "readFile ?s' folder name = readFile ?s3 folder name"
      by (simp only: readFile_def)
    with read3 that show ?thesis
      by simp
  qed
  have files': "{c_file c |c. c \<in> set (ghost_content ?s') \<and> c_folder c = folder} = set files"
  proof (intro equalityI subsetI)
    fix name assume "name \<in> {c_file c |c. c \<in> set (ghost_content ?s') \<and> c_folder c = folder}"
    then show "name \<in> set files" by auto
  next
    fix name assume "name \<in> set files"
    then have "readFile ?s' folder name = Resolved (Some (raw name))"
      by (rule read')
    then obtain c rest where "select_where ?s' folder name = c # rest"
      by (auto simp: readFile_def split: list.splits)
    then have "c \<in> set (select_where ?s' folder name)"
      by simp
    then have "c \<in> set (ghost_content ?s')" "c_folder c = folder" "c_file c = name"
      by (auto simp: select_where_def)
    then show "name \<in> {c_file c |c. c \<in> set (ghost_content ?s') \<and> c_folder c = folder}"
      by blast
  qed
  have revs: "ghost_revisions ?s' = ghost_revisions s"
    using recordFiles_frame[of env folderPath folder files ?s1] by simp
  from read' reads have "\<forall>name\<in>set files. \<forall>content.
              readFileAsync env (path_join env folderPath name) = Inr content \<longrightarrow>
              readFile ?s' folder name = Resolved (Some content)"
    by auto
  with run files' revs show ?thesis
    by blast
qed

subsection \<open>Reading the manifest\<close>

lemma recordFiles_no_error:
  assumes "\<forall>name\<in>set files. \<exists>content. readFileAsync env (path_join env folderPath name) = Inr content"
  shows "fst (recordFiles env folderPath folder files t) = None"
  using assms
proof (induction files arbitrary: t)
  case Nil
  then show ?case by simp
next
  case (Cons name rest)
  then show ?case
    by (auto simp: recordFile_def split: sum.splits)
qed

lemma resolved_if_no_error:
  assumes "fst r = None"
  shows "fst (case r of (Some e, s3) \<Rightarrow> (Rejected e, s3) | (None, s3) \<Rightarrow> (Resolved (), g s3))
           = Resolved ()"
  using assms by (cases r) auto

lemma addRootFolder_resolves:
  assumes "fileRevisions env folderPath = Inr knownRevisions"
      and "globAsync env filesGlob folderPath = Inr files"
      and "\<forall>name\<in>set files. \<exists>content. readFileAsync env (path_join env folderPath name) = Inr content"
  shows "fst (addRootFolder env s folderPath folder filesGlob) = Resolved ()"
  using assms(1,2)
  by (simp add: addRootFolder_def Let_def resolved_if_no_error recordFiles_no_error[OF assms(3)])

text \<open>
  Claim C9. For a manifest whose lines are \<open>ls\<close>, the known revisions are the
  tokens \<open>t\<close> such that a line is \<open>t\<close> with white space only before and after it,
  \<open>t\<close> is not empty, neither starts nor ends with white space, and does not start
  with \<open>#\<close>; a manifest that does not exist (\<open>ENOENT\<close>) gives no known revisions and
  the registration goes on, resolving when the glob and the reads of the matched
  files succeed; any other failure to read the manifest rejects \<open>addRootFolder\<close> with
  the tables untouched.
\<close>

theorem manifest_loading:
  "(readFileAsync env (path_join env folderPath REVISIONS_FILE_NAME) = Inr (join_lines ls) \<and>
    (\<forall>l\<in>set ls. CHR 0x0A \<notin> set l) \<longrightarrow>
      (\<exists>knownRevisions. fileRevisions env folderPath = Inr knownRevisions \<and>
         set knownRevisions =
           {t. t \<noteq> [] \<and> \<not> isWhiteSpace (hd t) \<and> \<not> isWhiteSpace (last t) \<and>
               hd t \<noteq> CHR ''#'' \<and>
               (\<exists>l\<in>set ls. \<exists>a b. l = a @ t @ b \<and>
                  list_all isWhiteSpace a \<and> list_all isWhiteSpace b)})) \<and>
   (readFileAsync env (path_join env folderPath REVISIONS_FILE_NAME) = Inl (SystemError ''ENOENT'') \<longrightarrow>
      fileRevisions env folderPath = Inr [] \<and>
      (globAsync env filesGlob folderPath = Inr files \<and>
       (\<forall>name\<in>set files. \<exists>content. readFileAsync env (path_join env folderPath name) = Inr content) \<longrightarrow>
         fst (addRootFolder env s folderPath folder filesGlob) = Resolved ())) \<and>
   (readFileAsync env (path_join env folderPath REVISIONS_FILE_NAME) = Inl e \<and>
    e \<noteq> SystemError ''ENOENT'' \<longrightarrow>
      addRootFolder env s folderPath folder filesGlob =
        (Rejected e, s\<lparr>trackedFolders := trackedFolders s @ [folder]\<rparr>))"
proof (intro conjI impI)
  assume a: "readFileAsync env (path_join env folderPath REVISIONS_FILE_NAME) = Inr (join_lines ls) \<and>
    (\<forall>l\<in>set ls. CHR 0x0A \<notin> set l)"
  then have "fileRevisions env folderPath = Inr (parseRevisions (join_lines ls))"
    by (simp add: fileRevisions_cases)
  moreover from a have "set (parseRevisions (join_lines ls)) =
           {t. t \<noteq> [] \<and> \<not> isWhiteSpace (hd t) \<and> \<not> isWhiteSpace (last t) \<and>
               hd t \<noteq> CHR ''#'' \<and>
               (\<exists>l\<in>set ls. \<exists>a b. l = a @ t @ b \<and>
                  list_all isWhiteSpace a \<and> list_all isWhiteSpace b)}"
    by (intro tokens_of_lines) blast
  ultimately show "\<exists>knownRevisions. fileRevisions env folderPath = Inr knownRevisions \<and>
         set knownRevisions =
           {t. t \<noteq> [] \<and> \<not> isWhiteSpace (hd t) \<and> \<not> isWhiteSpace (last t) \<and>
               hd t \<noteq> CHR ''#'' \<and>
               (\<exists>l\<in>set ls. \<exists>a b. l = a @ t @ b \<and>
                  list_all isWhiteSpace a \<and> list_all isWhiteSpace b)}"
    by blast
next
  assume "readFileAsync env (path_join env folderPath REVISIONS_FILE_NAME) = Inl (SystemError ''ENOENT'')"
  then show "fileRevisions env folderPath = Inr []"
    by (simp add: fileRevisions_cases)
next
  assume "readFileAsync env (path_join env folderPath REVISIONS_FILE_NAME) = Inl (SystemError ''ENOENT'')"
    and "globAsync env filesGlob folderPath = Inr files \<and>
       (\<forall>name\<in>set files. \<exists>content. readFileAsync env (path_join env folderPath name) = Inr content)"
  then show "fst (addRootFolder env s folderPath folder filesGlob) = Resolved ()"
    by (intro addRootFolder_resolves[where knownRevisions = "[]" and files = files])
       (simp_all add: fileRevisions_cases)
next
  assume "readFileAsync env (path_join env folderPath REVISIONS_FILE_NAME) = Inl e \<and>
    e \<noteq> SystemError ''ENOENT''"
  then have "fileRevisions env folderPath = Inl e"
    by (simp add: fileRevisions_cases)
  then show "addRootFolder env s folderPath folder filesGlob =
        (Rejected e, s\<lparr>trackedFolders := trackedFolders s @ [folder]\<rparr>)"
    by (simp add: addRootFolder_def)
qed

theorem manifest_loading_witness:
  "join_lines release_lines = release_manifest \<and>
   fileRevisions released_node ''/bot/flows'' = Inr [''abc-1'', ''def-2'', ''ghi 3''] \<and>
   {t. t \<noteq> [] \<and> \<not> isWhiteSpace (hd t) \<and> \<not> isWhiteSpace (last t) \<and> hd t \<noteq> CHR ''#'' \<and>
       (\<exists>l\<in>set release_lines. \<exists>a b. l = a @ t @ b \<and>
          list_all isWhiteSpace a \<and> list_all isWhiteSpace b)} = {''abc-1'', ''def-2'', ''ghi 3''} \<and>
   fileRevisions example_node ''/bot/actions'' = Inr [] \<and>
   fst (addRootFolder example_node example_store ''/bot/actions'' ''actions'' ''**/*.js'') = Resolved () \<and>
   addRootFolder example_node example_store ''/bot/secret'' ''secret'' ''**/*'' =
     (Rejected (SystemError ''EACCES''),
      example_store\<lparr>trackedFolders := trackedFolders example_store @ [''secret'']\<rparr>)"
proof -
  have j: "join_lines release_lines = release_manifest"
    by code_simp
  have "readFileAsync released_node (path_join released_node ''/bot/flows'' REVISIONS_FILE_NAME)
      = Inr release_manifest"
    by (simp add: released_node_def flows_node_def REVISIONS_FILE_NAME_def)
  with j have a: "readFileAsync released_node (path_join released_node ''/bot/flows'' REVISIONS_FILE_NAME)
      = Inr (join_lines release_lines)"
    by simp
  have a1: "\<forall>l\<in>set release_lines. CHR 0x0A \<notin> set l"
    by (simp add: release_lines_def)
  have parsed: "fileRevisions released_node ''/bot/flows'' = Inr [''abc-1'', ''def-2'', ''ghi 3'']"
    by code_simp
  have b: "readFileAsync example_node (path_join example_node ''/bot/actions'' REVISIONS_FILE_NAME)
      = Inl (SystemError ''ENOENT'')"
    by (simp add: example_node_def REVISIONS_FILE_NAME_def)
  have b1: "globAsync example_node ''**/*.js'' ''/bot/actions'' = Inr [''x.js'', ''y.js'']"
    by (simp add: example_node_def)
  have b2: "\<forall>name\<in>set [''x.js'', ''y.js''].
      \<exists>content. readFileAsync example_node (path_join example_node ''/bot/actions'' name) = Inr content"
    by (simp add: example_node_def)
  have c: "readFileAsync example_node (path_join example_node ''/bot/secret'' REVISIONS_FILE_NAME)
      = Inl (SystemError ''EACCES'') \<and> SystemError ''EACCES'' \<noteq> SystemError ''ENOENT''"
    by (simp add: example_node_def REVISIONS_FILE_NAME_def)
  from manifest_loading[of released_node "''/bot/flows''" release_lines filesGlob files s folder e,
      THEN conjunct1, THEN mp, OF conjI[OF a a1]]
  obtain knownRevisions where kr: "fileRevisions released_node ''/bot/flows'' = Inr knownRevisions"
    and ks: "set knownRevisions =
        {t. t \<noteq> [] \<and> \<not> isWhiteSpace (hd t) \<and> \<not> isWhiteSpace (last t) \<and> hd t \<noteq> CHR ''#'' \<and>
            (\<exists>l\<in>set release_lines. \<exists>a b. l = a @ t @ b \<and>
               list_all isWhiteSpace a \<and> list_all isWhiteSpace b)}"
    by blast
  from parsed kr have k: "knownRevisions = [''abc-1'', ''def-2'', ''ghi 3'']"
    by simp
  have e: "set [''abc-1'', ''def-2'', ''ghi 3''] = {''abc-1'', ''def-2'', ''ghi 3''}"
    by simp
  have 1: "{t. t \<noteq> [] \<and> \<not> isWhiteSpace (hd t) \<and> \<not> isWhiteSpace (last t) \<and> hd t \<noteq> CHR ''#'' \<and>
       (\<exists>l\<in>set release_lines. \<exists>a b. l = a @ t @ b \<and>
          list_all isWhiteSpace a \<and> list_all isWhiteSpace b)} = {''abc-1'', ''def-2'', ''ghi 3''}"
    using ks[symmetric] unfolding k e .
  from manifest_loading[of example_node "''/bot/actions''" "[]" "''**/*.js''" "[''x.js'', ''y.js'']"
      example_store "''actions''" e, THEN conjunct2, THEN conjunct1, THEN mp, OF b] b1 b2
  have 2: "fileRevisions example_node ''/bot/actions'' = Inr []"
    and resolves: "fst (addRootFolder example_node example_store ''/bot/actions'' ''actions'' ''**/*.js'') = Resolved ()"
    by blast+
  from manifest_loading[of example_node "''/bot/secret''" "[]" "''**/*''" "[]" example_store
      "''secret''" "SystemError ''EACCES''", THEN conjunct2, THEN conjunct2, THEN mp, OF c]
  have 3: "addRootFolder example_node example_store ''/bot/secret'' ''secret'' ''**/*'' =
     (Rejected (SystemError ''EACCES''),
      example_store\<lparr>trackedFolders := trackedFolders example_store @ [''secret'']\<rparr>)" .
  show ?thesis
    by (intro conjI) (rule j parsed 1 2 resolves 3)+
qed

subsection \<open>The operations keep a store well-formed\<close>

text \<open>
  Every operation, however it ends, leaves the tables well-formed when it found them
  so, and a token that is not an inherited property name keeps the tokens free of
  them: the hypotheses of the properties above hold in every store the operations
  make of the empty one.
\<close>

lemma wf_tables:
  assumes "wf s" "ghost_content t = ghost_content s" "ghost_revisions t = ghost_revisions s"
    "content_seq t = content_seq s" "revisions_seq t = revisions_seq s"
  shows "wf t"
  using assms
  by (simp add: wf_def content_ids_ok_def keys_unique_def revision_ids_issued_def
        revision_ids_unique_def)

lemma wf_empty: "wf empty_store"
  by (simp add: empty_store_def wf_def content_ids_ok_def keys_unique_def
        revision_ids_issued_def revision_ids_unique_def)

lemma keys_unique_upsert:
  assumes "ids_truthy s" and "keys_unique s"
  shows "keys_unique (upsert s folder file content)"
proof (cases "select_where s folder file")
  case Nil
  then have "(folder, file) \<notin> set (map (\<lambda>c. (c_folder c, c_file c)) (ghost_content s))"
    by (auto simp: select_where_def filter_empty_conv)
  with Nil assms(2) show ?thesis
    by (simp add: upsert_def keys_unique_def)
next
  case (Cons c rest)
  then have "c \<in> set (ghost_content s)"
    by (rule select_where_mem)
  with assms(1) have "c_id c \<noteq> 0"
    by (simp add: ids_truthy_def list_all_iff)
  with Cons have "ghost_content (upsert s folder file content) =
      map (\<lambda>d. if c_id d = c_id c then d\<lparr>c_content := Some content\<rparr> else d) (ghost_content s)"
    by (simp add: upsert_def)
  with assms(2) show ?thesis
    by (simp only: keys_unique_def map_key_update)
qed

lemma upsert_revisions:
  "ghost_revisions (upsert s folder file content) = ghost_revisions s \<and>
   revisions_seq (upsert s folder file content) = revisions_seq s"
  by (simp add: ghost_revisions_upsert revisions_seq_upsert)

lemma wf_upsert:
  assumes "wf s"
  shows "wf (upsert s folder file content)"
  using assms
  by (simp add: wf_def content_ids_ok_upsert keys_unique_upsert content_ids_ok_truthy
        revision_ids_issued_def revision_ids_unique_def upsert_revisions)

lemma wf_insert_revision:
  assumes "wf s"
  shows "wf (insert_revision s content_id revision now)"
proof -
  from assms have "\<forall>r\<in>set (ghost_revisions s). r_id r \<le> revisions_seq s"
    by (simp add: wf_def revision_ids_issued_def list_all_iff)
  then have "Suc (revisions_seq s) \<notin> r_id ` set (ghost_revisions s)"
    by auto
  with assms show ?thesis
    by (auto simp: wf_def insert_revision_def content_ids_ok_def keys_unique_def
          revision_ids_issued_def revision_ids_unique_def list_all_iff)
qed

lemma wf_transaction:
  assumes "wf s" and "wf written"
  shows "wf (snd (transaction faults s written content_id revision now folder))"
proof -
  have "wf (rollback s x)" for x
    using assms(1) by (rule wf_tables) (simp_all add: rollback_def)
  moreover have "wf (updatePendingForFolder (insert_revision written content_id revision now) folder)"
    using wf_insert_revision[OF assms(2), of content_id revision now]
    by (rule wf_tables) (simp_all add: updatePendingForFolder_def)
  ultimately show ?thesis
    by (simp add: transaction_def split: option.splits)
qed

lemma wf_recordRevision:
  assumes "wf s"
  shows "wf (snd (recordRevision faults s folder file newContent revision now))"
proof (cases "readFile s folder file = Resolved (Some newContent)")
  case True
  with assms show ?thesis
    by (simp add: recordRevision_same)
next
  case False
  with assms show ?thesis
    by (simp add: recordRevision_differs wf_transaction wf_upsert)
qed

lemma map_tombstone:
  "map c_id (map (\<lambda>c. if P c then c\<lparr>c_deleted := True, c_content := None\<rparr> else c) xs) = map c_id xs \<and>
   map (\<lambda>c. (c_folder c, c_file c))
     (map (\<lambda>c. if P c then c\<lparr>c_deleted := True, c_content := None\<rparr> else c) xs) =
     map (\<lambda>c. (c_folder c, c_file c)) xs \<and>
   list_all (\<lambda>c. 0 < c_id c \<and> c_id c \<le> n)
     (map (\<lambda>c. if P c then c\<lparr>c_deleted := True, c_content := None\<rparr> else c) xs) =
     list_all (\<lambda>c. 0 < c_id c \<and> c_id c \<le> n) xs"
  by (induction xs) auto

lemma wf_tombstone:
  assumes "wf s"
  shows "wf (s\<lparr>ghost_content :=
               map (\<lambda>c. if P c then c\<lparr>c_deleted := True, c_content := None\<rparr> else c)
                   (ghost_content s)\<rparr>)"
proof -
  let ?t = "s\<lparr>ghost_content :=
               map (\<lambda>c. if P c then c\<lparr>c_deleted := True, c_content := None\<rparr> else c)
                   (ghost_content s)\<rparr>"
  have gc: "ghost_content ?t =
      map (\<lambda>c. if P c then c\<lparr>c_deleted := True, c_content := None\<rparr> else c) (ghost_content s)"
    and seq: "content_seq ?t = content_seq s"
    by simp_all
  have "content_ids_ok ?t = content_ids_ok s" "keys_unique ?t = keys_unique s"
    by (simp_all only: content_ids_ok_def keys_unique_def gc seq map_tombstone)
  with assms show ?thesis
    by (simp add: wf_def revision_ids_issued_def revision_ids_unique_def)
qed

lemma wf_deleteFile:
  assumes "wf s"
  shows "wf (snd (deleteFile faults s folder file revision now))"
  using assms
  by (simp add: deleteFile_def Let_def wf_transaction wf_tombstone)

lemma wf_recordFiles:
  "wf s \<Longrightarrow> wf (snd (recordFiles env folderPath folder names s))"
proof (induction names arbitrary: s)
  case Nil
  then show ?case by simp
next
  case (Cons name rest)
  then show ?case
    by (auto simp: recordFile_def wf_upsert split: sum.splits)
qed

lemma wf_filter_revisions:
  assumes "wf s"
  shows "wf (s\<lparr>ghost_revisions := filter P (ghost_revisions s)\<rparr>)"
  using assms
  by (auto simp: wf_def content_ids_ok_def keys_unique_def revision_ids_issued_def
        revision_ids_unique_def list_all_iff distinct_map_filter)

lemma wf_filter_content:
  assumes "wf s"
  shows "wf (s\<lparr>ghost_content := filter P (ghost_content s)\<rparr>)"
  using assms
  by (auto simp: wf_def content_ids_ok_def keys_unique_def revision_ids_issued_def
        revision_ids_unique_def list_all_iff distinct_map_filter)

lemma wf_addRootFolder:
  assumes "wf s"
  shows "wf (snd (addRootFolder env s folderPath folder filesGlob))"
proof -
  let ?s1 = "s\<lparr>trackedFolders := trackedFolders s @ [folder]\<rparr>"
  have s1: "wf ?s1"
    using assms by (rule wf_tables) simp_all
  have s2: "wf (?s1\<lparr>ghost_revisions := filter P (ghost_revisions ?s1)\<rparr>)" for P
    using s1 by (rule wf_filter_revisions)
  have pend: "wf (t\<lparr>pendingRevisionsByFolder := m\<rparr>)" if "wf t" for t m
    using that by (rule wf_tables) simp_all
  have resync: "wf (snd (case recordFiles env folderPath folder names t of
            (Some e, s3) \<Rightarrow> (Rejected e, s3)
          | (None, s3) \<Rightarrow> (Resolved (), s3\<lparr>ghost_content := filter Q (ghost_content s3)\<rparr>)))"
    if "wf t" for t names Q
  proof -
    from that have "wf (snd (recordFiles env folderPath folder names t))"
      by (rule wf_recordFiles)
    then show ?thesis
      by (cases "recordFiles env folderPath folder names t")
         (auto simp: wf_filter_content split: option.splits)
  qed
  show ?thesis
    using s1 s2 pend resync
    by (simp add: addRootFolder_def Let_def split: sum.splits)
qed

lemma tokens_transaction:
  assumes "no_inherited_tokens s" and "ghost_revisions written = ghost_revisions s"
      and "revision \<notin> set Object_prototype"
  shows "no_inherited_tokens (snd (transaction faults s written content_id revision now folder))"
  using assms
  by (simp add: transaction_def no_inherited_tokens_def insert_revision_def
        updatePendingForFolder_def rollback_def split: option.splits)

lemma tokens_recordRevision:
  assumes "no_inherited_tokens s" and "revision \<notin> set Object_prototype"
  shows "no_inherited_tokens (snd (recordRevision faults s folder file newContent revision now))"
proof (cases "readFile s folder file = Resolved (Some newContent)")
  case True
  with assms show ?thesis
    by (simp add: recordRevision_same)
next
  case False
  with assms show ?thesis
    by (simp add: recordRevision_differs tokens_transaction ghost_revisions_upsert)
qed

lemma tokens_deleteFile:
  assumes "no_inherited_tokens s" and "revision \<notin> set Object_prototype"
  shows "no_inherited_tokens (snd (deleteFile faults s folder file revision now))"
  using assms
  by (simp add: deleteFile_def Let_def tokens_transaction)

lemma wf_hypotheses:
  "wf s \<Longrightarrow> ids_truthy s \<and> content_ids_ok s \<and> keys_unique s \<and>
            revision_ids_issued s \<and> revision_ids_unique s"
  by (simp add: wf_def content_ids_ok_truthy)

lemma wf_example: "wf example_store"
  by code_simp

subsection \<open>The listing after a resync, and the specification's example\<close>

lemma list_all_map_content:
  "list_all (\<lambda>c. c_folder c = folder \<longrightarrow> \<not> c_deleted c)
     (map (\<lambda>c. if P c then c\<lparr>c_content := v\<rparr> else c) xs) =
   list_all (\<lambda>c. c_folder c = folder \<longrightarrow> \<not> c_deleted c) xs"
  by (induction xs) auto

lemma live_upsert:
  assumes "live s folder"
  shows "live (upsert s folder' file content) folder"
proof (cases "select_where s folder' file")
  case Nil
  with assms show ?thesis
    by (simp add: upsert_def live_def)
next
  case (Cons c rest)
  show ?thesis
  proof (cases "c_id c = 0")
    case True
    with Cons assms show ?thesis
      by (simp add: upsert_def live_def)
  next
    case False
    with Cons have "ghost_content (upsert s folder' file content) =
      map (\<lambda>d. if c_id d = c_id c then d\<lparr>c_content := Some content\<rparr> else d) (ghost_content s)"
      by (simp add: upsert_def)
    with assms show ?thesis
      by (simp only: live_def list_all_map_content)
  qed
qed

lemma live_recordFiles:
  "live s folder \<Longrightarrow> live (snd (recordFiles env folderPath folder' names s)) folder"
proof (induction names arbitrary: s)
  case Nil
  then show ?case by simp
next
  case (Cons name rest)
  then show ?case
    by (auto simp: recordFile_def live_upsert split: sum.splits)
qed

lemma addRootFolder_resync_listing:
  assumes "fileRevisions env folderPath = Inr []"
      and "getPendingRevisions s folder = []"
      and "content_ids_ok s"
      and "globAsync env filesGlob folderPath = Inr names"
      and "\<forall>name\<in>set names. \<exists>content. readFileAsync env (path_join env folderPath name) = Inr content"
      and "live s folder"
  shows "set (directoryListing like
                (snd (addRootFolder env s folderPath folder filesGlob)) folder pattern) =
           {name \<in> set names. like name (''%'' @ pattern)}"
proof -
  let ?s1 = "s\<lparr>trackedFolders := trackedFolders s @ [folder]\<rparr>"
  from resync_rows[OF assms(1-5)]
  obtain s' where run: "addRootFolder env s folderPath folder filesGlob = (Resolved (), s')"
    and names: "{c_file c |c. c \<in> set (ghost_content s') \<and> c_folder c = folder} = set names"
    by blast
  from assms(6) have "live ?s1 folder"
    by (simp add: live_def)
  then have l3: "live (snd (recordFiles env folderPath folder names ?s1)) folder"
    by (rule live_recordFiles)
  obtain e s3 where rf: "recordFiles env folderPath folder names ?s1 = (e, s3)"
    by (cases "recordFiles env folderPath folder names ?s1")
  with l3 have "live s3 folder"
    by simp
  then have "live (s3\<lparr>ghost_content := filter Q (ghost_content s3)\<rparr>) folder" for Q
    by (simp add: live_def list_all_iff)
  with rf run assms(1,2,4) \<open>live s3 folder\<close> have "live s' folder"
    by (auto simp: addRootFolder_no_revisions split: option.splits)
  then have "set (directoryListing like s' folder pattern) =
      {name \<in> {c_file c |c. c \<in> set (ghost_content s') \<and> c_folder c = folder}.
         like name (''%'' @ pattern)}"
    by (auto simp: directoryListing_def live_def list_all_iff)
  with names run show ?thesis
    by simp
qed

text \<open>
  Registering \<open>flows\<close> lists both files with their content; \<open>recordRevision\<close> of
  \<open>a.json\<close> makes its revision pending; \<open>deleteFile\<close> of \<open>b.json\<close> leaves
  \<open>a.json\<close> in the listing.
\<close>

lemma spec_example:
  "directoryListing like_any
     (snd (addRootFolder flows_node empty_store ''/bot/flows'' ''flows'' ''*.json'')) ''flows'' ''''
     = [''a.json'', ''b.json''] \<and>
   readFile (snd (addRootFolder flows_node empty_store ''/bot/flows'' ''flows'' ''*.json''))
     ''flows'' ''a.json'' = Resolved (Some ''v1'') \<and>
   getPending
     (snd (recordRevision no_faults
        (snd (addRootFolder flows_node empty_store ''/bot/flows'' ''flows'' ''*.json''))
        ''flows'' ''a.json'' ''v2'' ''r-1'' 10)) ''flows'' =
     Some [\<lparr>p_file = ''a.json'', p_id = 1, p_revision = ''r-1'', p_created_on = 10,
            p_created_by = ''admin''\<rparr>] \<and>
   directoryListing like_any
     (snd (deleteFile no_faults
        (snd (recordRevision no_faults
           (snd (addRootFolder flows_node empty_store ''/bot/flows'' ''flows'' ''*.json''))
           ''flows'' ''a.json'' ''v2'' ''r-1'' 10))
        ''flows'' ''b.json'' ''r-2'' 20)) ''flows'' '''' = [''a.json'']"
  by code_simp

subsection \<open>A tombstone at the resynchronisation\<close>

text \<open>
  Claim C2, at a folder with a tombstone. \<open>flows\<close> is registered from the disk,
  \<open>b.json\<close> is deleted, and the folder is registered again with the revision of the
  deletion in the manifest while \<open>b.json\<close> is on the disk. A registration with no
  manifest then finds no revision and no pending revision, the glob matches
  \<open>a.json\<close> and \<open>b.json\<close> and both are read, and it resolves; \<open>upsert\<close> gives
  the row of \<open>b.json\<close> the content on the disk and leaves \<open>deleted\<close> set, so
  \<open>directoryListing\<close> gives \<open>a.json\<close> alone.
\<close>

theorem addRootFolder_resync_tombstone:
  "fst (addRootFolder flows_node empty_store ''/bot/flows'' ''flows'' ''*.json'') = Resolved () \<and>
   fst (deleteFile no_faults registered_store ''flows'' ''b.json'' ''def-2'' 20) = Resolved () \<and>
   fst (addRootFolder released_node deleted_store ''/bot/flows'' ''flows'' ''*.json'') = Resolved () \<and>
   fileRevisions flows_node ''/bot/flows'' = Inr [] \<and>
   ghost_revisions released_store = [] \<and>
   getPendingRevisions released_store ''flows'' = [] \<and>
   globAsync flows_node ''*.json'' ''/bot/flows'' = Inr [''a.json'', ''b.json''] \<and>
   readFileAsync flows_node (path_join flows_node ''/bot/flows'' ''b.json'') = Inr ''w1'' \<and>
   fst (addRootFolder flows_node released_store ''/bot/flows'' ''flows'' ''*.json'') = Resolved () \<and>
   ghost_content (snd (addRootFolder flows_node released_store ''/bot/flows'' ''flows'' ''*.json'')) =
     [\<lparr>c_id = 1, c_folder = ''flows'', c_file = ''a.json'', c_content = Some ''v1'',
       c_deleted = False\<rparr>,
      \<lparr>c_id = 2, c_folder = ''flows'', c_file = ''b.json'', c_content = Some ''w1'',
       c_deleted = True\<rparr>] \<and>
   directoryListing like_any
     (snd (addRootFolder flows_node released_store ''/bot/flows'' ''flows'' ''*.json''))
     ''flows'' '''' = [''a.json'']"
  by code_simp


subsection \<open>A revision that is never pending\<close>

text \<open>
  A row of \<open>ghost_revisions\<close> with a null \<open>content_id\<close> is in no result of the
  pending query, and no call gives it a content id: rows are appended and deleted,
  never updated. So it stays out of the snapshots, whatever is called later.
\<close>

lemma unjoined_pending:
  assumes "list_all (\<lambda>r. r_id r = n \<or> r_revision r = token \<longrightarrow> r_content_id r = None)
             (ghost_revisions t)"
      and "p \<in> set (getPendingRevisions t f)"
  shows "p_id p \<noteq> n \<and> p_revision p \<noteq> token"
proof -
  from assms(2) obtain r where "r \<in> set (ghost_revisions t)" "r_content_id r \<noteq> None"
      "p_id p = r_id r" "p_revision p = r_revision r"
    using pending_row_has_content_id by blast
  with assms(1) show ?thesis
    by (auto simp: list_all_iff)
qed

lemma unjoined_frame:
  assumes "unjoined n token s"
      and "ghost_revisions t = ghost_revisions s" "revisions_seq t = revisions_seq s"
      and "pendingRevisionsByFolder t = pendingRevisionsByFolder s"
  shows "unjoined n token t"
  using assms by (simp add: unjoined_def)

lemma unjoined_transaction:
  assumes "unjoined n token s"
      and "ghost_revisions written = ghost_revisions s" "revisions_seq written = revisions_seq s"
      and "pendingRevisionsByFolder written = pendingRevisionsByFolder s"
      and "revision \<noteq> token"
  shows "unjoined n token (snd (transaction faults s written cid revision now folder))"
proof (cases "first_fault faults")
  case (Some err)
  then have "unjoined n token (snd (transaction faults s written cid revision now folder))
      = unjoined n token s"
    using assms(2-4)
    by (auto simp: transaction_def first_fault_def rollback_def unjoined_def split: option.splits)
  with assms(1) show ?thesis by simp
next
  case None
  let ?i = "insert_revision written cid revision now"
  from None have t: "snd (transaction faults s written cid revision now folder) =
      updatePendingForFolder ?i folder"
    by (auto simp: transaction_def first_fault_def split: option.splits)
  have rows: "list_all (\<lambda>r. r_id r = n \<or> r_revision r = token \<longrightarrow> r_content_id r = None)
      (ghost_revisions ?i)"
    using assms by (auto simp: unjoined_def insert_revision_def)
  then have "list_all (\<lambda>p. p_id p \<noteq> n \<and> p_revision p \<noteq> token) (getPendingRevisions ?i folder)"
    using unjoined_pending[of n token ?i] by (auto simp: list_all_iff)
  moreover have "pendingRevisionsByFolder ?i = pendingRevisionsByFolder s"
    using assms(4) by (simp add: insert_revision_def)
  moreover have "n \<le> revisions_seq ?i"
    using assms(1,3) by (simp add: insert_revision_def unjoined_def)
  ultimately show ?thesis
    using rows assms(1) by (simp add: t unjoined_def updatePendingForFolder_def)
qed

lemma unjoined_recordRevision:
  assumes "unjoined n token s" and "revision \<noteq> token"
  shows "unjoined n token (snd (recordRevision faults s folder name newContent revision now))"
proof (cases "readFile s folder name = Resolved (Some newContent)")
  case True
  with assms(1) show ?thesis
    by (simp add: recordRevision_same)
next
  case False
  then show ?thesis
    using unjoined_transaction[OF assms(1) _ _ _ assms(2)]
    by (simp add: recordRevision_differs ghost_revisions_upsert revisions_seq_upsert upsert_frame)
qed

lemma unjoined_deleteFile:
  assumes "unjoined n token s" and "revision \<noteq> token"
  shows "unjoined n token (snd (deleteFile faults s folder name revision now))"
  using assms(1) unjoined_transaction[OF assms(1) _ _ _ assms(2)]
  by (simp add: deleteFile_def Let_def)

lemma unjoined_addRootFolder:
  assumes "unjoined n token s"
  shows "unjoined n token (snd (addRootFolder env s folderPath folder filesGlob))"
proof -
  let ?s1 = "s\<lparr>trackedFolders := trackedFolders s @ [folder]\<rparr>"
  have u1: "unjoined n token ?s1"
    using assms by (simp add: unjoined_def)
  have del: "unjoined n token (t\<lparr>ghost_revisions := filter Q (ghost_revisions t)\<rparr>)"
    if "unjoined n token t" for t Q
    using that by (simp add: unjoined_def list_all_iff)
  have pend: "unjoined n token
      (t\<lparr>pendingRevisionsByFolder := (pendingRevisionsByFolder t)(folder \<mapsto> filter Q (getPendingRevisions ?s1 folder))\<rparr>)"
    if "unjoined n token t" for t Q
  proof -
    have "list_all (\<lambda>p. p_id p \<noteq> n \<and> p_revision p \<noteq> token) (getPendingRevisions ?s1 folder)"
      using u1 unjoined_pending[of n token ?s1] by (auto simp: list_all_iff unjoined_def)
    then have "list_all (\<lambda>p. p_id p \<noteq> n \<and> p_revision p \<noteq> token)
        (filter Q (getPendingRevisions ?s1 folder))"
      by (simp add: list_all_iff)
    with that show ?thesis
      by (simp add: unjoined_def)
  qed
  have files: "unjoined n token (snd (recordFiles env folderPath folder names t))"
    if "unjoined n token t" for t names
    using that recordFiles_frame[of env folderPath folder names t]
    by (intro unjoined_frame[OF that]) simp_all
  have content: "unjoined n token (t\<lparr>ghost_content := cs\<rparr>)" if "unjoined n token t" for t cs
    using that by (simp add: unjoined_def)
  show ?thesis
  proof (cases "fileRevisions env folderPath")
    case (Inl e)
    with u1 show ?thesis
      by (simp add: addRootFolder_def)
  next
    case (Inr knownRevisions)
    let ?del = "filter (\<lambda>p. lookup knownRevisions (p_revision p)) (getPendingRevisions ?s1 folder)"
    let ?s2 = "if ?del \<noteq> []
                    then ?s1\<lparr>ghost_revisions :=
                              filter (\<lambda>r. r_id r \<notin> set (map p_id ?del)) (ghost_revisions ?s1)\<rparr>
                    else ?s1"
    have u2: "unjoined n token ?s2"
      using u1 del[OF u1] by (simp only: if_split) simp
    show ?thesis
    proof (cases "filter (\<lambda>p. \<not> lookup knownRevisions (p_revision p)) (getPendingRevisions ?s1 folder) = []")
      case False
      with Inr have "snd (addRootFolder env s folderPath folder filesGlob) =
        ?s2\<lparr>pendingRevisionsByFolder := (pendingRevisionsByFolder ?s2)(folder \<mapsto>
           filter (\<lambda>p. \<not> lookup knownRevisions (p_revision p)) (getPendingRevisions ?s1 folder))\<rparr>"
        by (simp add: addRootFolder_def Let_def)
      with pend[OF u2] show ?thesis
        by simp
    next
      case True
      show ?thesis
      proof (cases "globAsync env filesGlob folderPath")
        case (Inl e)
        with Inr True have "snd (addRootFolder env s folderPath folder filesGlob) = ?s2"
          by (simp add: addRootFolder_def Let_def)
        with u2 show ?thesis by simp
      next
        case (Inr names)
        obtain e s3 where rf: "recordFiles env folderPath folder names ?s2 = (e, s3)"
          by (cases "recordFiles env folderPath folder names ?s2")
        with files[OF u2, of names] have u3: "unjoined n token s3"
          by simp
        from rf Inr True \<open>fileRevisions env folderPath = Inr knownRevisions\<close>
        have "snd (addRootFolder env s folderPath folder filesGlob) = s3 \<or>
          (\<exists>cs. snd (addRootFolder env s folderPath folder filesGlob) = s3\<lparr>ghost_content := cs\<rparr>)"
          by (cases e) (simp_all add: addRootFolder_def Let_def, blast)
        with u3 content[OF u3] show ?thesis
          by auto
      qed
    qed
  qed
qed

lemma unjoined_fold:
  assumes "unjoined n token s" and "token \<notin> set (concat (map call_tokens calls))"
  shows "unjoined n token (fold apply_call calls s)"
  using assms
proof (induction calls arbitrary: s)
  case Nil
  then show ?case by simp
next
  case (Cons c calls)
  from Cons.prems have "unjoined n token (apply_call c s)"
    by (cases c) (auto intro: unjoined_recordRevision unjoined_deleteFile unjoined_addRootFolder)
  with Cons show ?case
    by simp
qed

lemma unjoined_absent:
  assumes "unjoined n token t"
  shows "(\<forall>p\<in>set (getPendingRevisions t f). p_id p \<noteq> n \<and> p_revision p \<noteq> token) \<and>
         (\<forall>rows. getPending t f = Some rows \<longrightarrow>
            (\<forall>p\<in>set rows. p_id p \<noteq> n \<and> p_revision p \<noteq> token)) \<and>
         (\<forall>w. getPendingWithContent t f = Some w \<longrightarrow> token \<notin> set (w_revisions w))"
proof (intro conjI allI impI ballI)
  fix p assume "p \<in> set (getPendingRevisions t f)"
  with assms show "p_id p \<noteq> n" "p_revision p \<noteq> token"
    using unjoined_pending[of n token t p f] by (simp_all add: unjoined_def)
next
  fix rows p assume "getPending t f = Some rows" "p \<in> set rows"
  with assms show "p_id p \<noteq> n" "p_revision p \<noteq> token"
    by (auto simp: unjoined_def getPending_def list_all_iff)
next
  fix w assume "getPendingWithContent t f = Some w"
  then obtain rows where "pendingRevisionsByFolder t f = Some rows"
    "w_revisions w = map p_revision rows"
    by (auto simp: getPendingWithContent_def getPendingWithContentForFolder_def Let_def)
  with assms show "token \<notin> set (w_revisions w)"
    by (auto simp: unjoined_def list_all_iff)
qed


lemma revisions_seq_transaction:
  "transaction faults s written cid revision now folder = (Resolved (), s') \<Longrightarrow>
   revisions_seq s' = Suc (revisions_seq written)"
  by (auto simp: transaction_def updatePendingForFolder_def insert_revision_def
           split: option.splits)

text \<open>
  Claim C10. When \<open>recordRevision\<close> resolves for a file that had no row, with a token
  no revision and no snapshot has, the revision it appends has a null \<open>content_id\<close>
  and the pending query of every folder is what it would be without that row. After
  any further calls that hand out other tokens, the row still has a null
  \<open>content_id\<close>, and neither its id nor its token is in the pending query of a
  folder, in a snapshot that \<open>getPending\<close> gives, or among the revisions that
  \<open>getPendingWithContent\<close> exports. Revision ids are those the sequence has handed
  out.
\<close>

theorem recordRevision_new_file_null_ref:
  assumes "select_where s folder file = []"
      and "recordRevision faults s folder file newContent revision now = (Resolved (), s')"
      and "revision_ids_issued s"
      and "revision \<notin> set (map r_revision (ghost_revisions s))"
      and "\<forall>f rows. pendingRevisionsByFolder s f = Some rows \<longrightarrow>
             (\<forall>p\<in>set rows. p_id p \<le> revisions_seq s \<and> p_revision p \<noteq> revision)"
      and "revision \<notin> set (concat (map call_tokens calls))"
  shows "ghost_revisions s' = ghost_revisions s @
           [\<lparr>r_id = Suc (revisions_seq s), r_content_id = None, r_revision = revision,
             r_created_on = now, r_created_by = ''admin''\<rparr>] \<and>
         (\<forall>f. getPendingRevisions s' f =
                getPendingRevisions (s'\<lparr>ghost_revisions := ghost_revisions s\<rparr>) f) \<and>
         (\<forall>f. \<forall>p\<in>set (getPendingRevisions s' f). p_id p \<noteq> Suc (revisions_seq s)) \<and>
         getPending s' = (getPending s)(folder \<mapsto> getPendingRevisions s' folder) \<and>
         (\<forall>r\<in>set (ghost_revisions (fold apply_call calls s')).
            r_id r = Suc (revisions_seq s) \<or> r_revision r = revision \<longrightarrow> r_content_id r = None) \<and>
         (\<forall>f. (\<forall>p\<in>set (getPendingRevisions (fold apply_call calls s') f).
                  p_id p \<noteq> Suc (revisions_seq s) \<and> p_revision p \<noteq> revision) \<and>
              (\<forall>rows. getPending (fold apply_call calls s') f = Some rows \<longrightarrow>
                 (\<forall>p\<in>set rows. p_id p \<noteq> Suc (revisions_seq s) \<and> p_revision p \<noteq> revision)) \<and>
              (\<forall>w. getPendingWithContent (fold apply_call calls s') f = Some w \<longrightarrow>
                 revision \<notin> set (w_revisions w)))"
proof -
  let ?n = "Suc (revisions_seq s)"
  from assms(1) have "readFile s folder file \<noteq> Resolved (Some newContent)"
    by (simp add: readFile_def)
  with assms(1,2) have trx: "transaction faults s (upsert s folder file newContent) None
      revision now folder = (Resolved (), s')"
    by (simp add: recordRevision_differs)
  then have revs: "ghost_revisions s' = ghost_revisions s @
           [\<lparr>r_id = ?n, r_content_id = None, r_revision = revision,
             r_created_on = now, r_created_by = ''admin''\<rparr>]"
    by (simp add: ghost_revisions_transaction ghost_revisions_upsert revisions_seq_upsert)
  have same: "getPendingRevisions s' f =
                getPendingRevisions (s'\<lparr>ghost_revisions := ghost_revisions s\<rparr>) f" for f
  proof -
    have "s' = s'\<lparr>ghost_revisions := ghost_revisions s @
           [\<lparr>r_id = ?n, r_content_id = None, r_revision = revision,
             r_created_on = now, r_created_by = ''admin''\<rparr>]\<rparr>"
      using revs by simp
    then have "getPendingRevisions s' f = getPendingRevisions (s'\<lparr>ghost_revisions := ghost_revisions s @
           [\<lparr>r_id = ?n, r_content_id = None, r_revision = revision,
             r_created_on = now, r_created_by = ''admin''\<rparr>]\<rparr>) f"
      by simp
    then show ?thesis
      by (simp add: getPendingRevisions_snoc_null)
  qed
  from trx have pend: "getPending s' = (getPending s)(folder \<mapsto> getPendingRevisions s' folder)"
    by (simp add: getPending_def pending_transaction pending_upsert)
  from trx have seq: "revisions_seq s' = ?n"
    by (simp add: revisions_seq_transaction revisions_seq_upsert)
  have rows: "list_all (\<lambda>r. r_id r = ?n \<or> r_revision r = revision \<longrightarrow> r_content_id r = None)
      (ghost_revisions s')"
    using assms(3,4) by (auto simp: revs revision_ids_issued_def list_all_iff)
  have snap: "list_all (\<lambda>p. p_id p \<noteq> ?n \<and> p_revision p \<noteq> revision) ps"
    if "pendingRevisionsByFolder s' f = Some ps" for f ps
  proof (cases "f = folder")
    case True
    with that pend have "ps = getPendingRevisions s' folder"
      by (simp add: getPending_def)
    with rows show ?thesis
      using unjoined_pending[of ?n revision s' _ folder] by (auto simp: list_all_iff)
  next
    case False
    with that pend have "pendingRevisionsByFolder s f = Some ps"
      by (simp add: getPending_def)
    with assms(5) show ?thesis
      by (fastforce simp: list_all_iff)
  qed
  have "unjoined ?n revision s'"
    using seq rows snap by (simp add: unjoined_def)
  then have u: "unjoined ?n revision (fold apply_call calls s')"
    using assms(6) by (rule unjoined_fold)
  then have null: "\<forall>r\<in>set (ghost_revisions (fold apply_call calls s')).
            r_id r = ?n \<or> r_revision r = revision \<longrightarrow> r_content_id r = None"
    by (simp add: unjoined_def list_all_iff)
  have fresh: "\<forall>f. \<forall>p\<in>set (getPendingRevisions s' f). p_id p \<noteq> ?n"
    using rows unjoined_pending[of ?n revision s'] by blast
  from revs same fresh pend null unjoined_absent[OF u] show ?thesis
    by blast
qed

theorem recordRevision_new_file_null_ref_witness:
  "select_where pending_store ''flows'' ''new.json'' = [] \<and>
   fst (recordRevision no_faults pending_store ''flows'' ''new.json'' ''{}'' ''r-3'' 30) = Resolved () \<and>
   revision_ids_issued pending_store \<and>
   ''r-3'' \<notin> set (map r_revision (ghost_revisions pending_store)) \<and>
   getPending pending_store ''flows'' =
     Some [\<lparr>p_file = ''b.json'', p_id = 2, p_revision = ''r-2'', p_created_on = 20,
            p_created_by = ''admin''\<rparr>,
           \<lparr>p_file = ''a.json'', p_id = 1, p_revision = ''r-1'', p_created_on = 10,
            p_created_by = ''admin''\<rparr>] \<and>
   ''r-3'' \<notin> set (concat (map call_tokens later_calls)) \<and>
   ghost_revisions (snd (recordRevision no_faults pending_store ''flows'' ''new.json'' ''{}'' ''r-3'' 30)) =
     ghost_revisions pending_store @
       [\<lparr>r_id = 3, r_content_id = None, r_revision = ''r-3'', r_created_on = 30,
         r_created_by = ''admin''\<rparr>] \<and>
   getPendingWithContent
       (snd (recordRevision no_faults pending_store ''flows'' ''new.json'' ''{}'' ''r-3'' 30)) ''flows'' =
     Some \<lparr>w_files = [(''a.json'', Some ''v1'', False), (''b.json'', None, True)],
           w_revisions = [''r-2'', ''r-1'']\<rparr> \<and>
   getPendingWithContent
       (fold apply_call later_calls
          (snd (recordRevision no_faults pending_store ''flows'' ''new.json'' ''{}'' ''r-3'' 30)))
       ''flows'' =
     Some \<lparr>w_files = [(''a.json'', None, True), (''b.json'', None, True)],
           w_revisions = [''r-4'', ''r-2'']\<rparr> \<and>
   ''r-3'' \<notin> set (w_revisions
     \<lparr>w_files = [(''a.json'', None, True), (''b.json'', None, True)],
      w_revisions = [''r-4'', ''r-2'']\<rparr>) \<and>
   \<lparr>r_id = 3, r_content_id = None, r_revision = ''r-3'', r_created_on = 30,
     r_created_by = ''admin''\<rparr>
     \<in> set (ghost_revisions (fold apply_call later_calls
          (snd (recordRevision no_faults pending_store ''flows'' ''new.json'' ''{}'' ''r-3'' 30)))) \<and>
   \<lparr>p_file = ''a.json'', p_id = 4, p_revision = ''r-4'', p_created_on = 40, p_created_by = ''admin''\<rparr>
     \<in> set (getPendingRevisions (fold apply_call later_calls
          (snd (recordRevision no_faults pending_store ''flows'' ''new.json'' ''{}'' ''r-3'' 30)))
        ''flows'') \<and>
   p_id \<lparr>p_file = ''a.json'', p_id = 4, p_revision = ''r-4'', p_created_on = 40,
         p_created_by = ''admin''\<rparr> \<noteq> Suc (revisions_seq pending_store)"
proof -
  let ?s' = "snd (recordRevision no_faults pending_store ''flows'' ''new.json'' ''{}'' ''r-3'' 30)"
  let ?t = "fold apply_call later_calls ?s'"
  let ?p = "\<lparr>p_file = ''a.json'', p_id = 4, p_revision = ''r-4'', p_created_on = 40,
             p_created_by = ''admin''\<rparr>"
  let ?w = "\<lparr>w_files = [(''a.json'', None, True), (''b.json'', None, True)],
             w_revisions = [''r-4'', ''r-2'']\<rparr>"
  have h1: "select_where pending_store ''flows'' ''new.json'' = []"
    by code_simp
  have r: "fst (recordRevision no_faults pending_store ''flows'' ''new.json'' ''{}'' ''r-3'' 30) = Resolved ()"
    by code_simp
  then have h2: "recordRevision no_faults pending_store ''flows'' ''new.json'' ''{}'' ''r-3'' 30 =
      (Resolved (), ?s')"
    by (simp add: prod_eq_iff)
  have h3: "revision_ids_issued pending_store"
    by code_simp
  have h4: "''r-3'' \<notin> set (map r_revision (ghost_revisions pending_store))"
    by code_simp
  have snapshot: "getPending pending_store ''flows'' =
     Some [\<lparr>p_file = ''b.json'', p_id = 2, p_revision = ''r-2'', p_created_on = 20,
            p_created_by = ''admin''\<rparr>,
           \<lparr>p_file = ''a.json'', p_id = 1, p_revision = ''r-1'', p_created_on = 10,
            p_created_by = ''admin''\<rparr>]"
    by code_simp
  have q: "getPendingRevisions example_store ''flows'' =
     [\<lparr>p_file = ''b.json'', p_id = 2, p_revision = ''r-2'', p_created_on = 20,
            p_created_by = ''admin''\<rparr>,
           \<lparr>p_file = ''a.json'', p_id = 1, p_revision = ''r-1'', p_created_on = 10,
            p_created_by = ''admin''\<rparr>]"
    by code_simp
  have seq: "revisions_seq pending_store = 2"
    by (simp add: pending_store_def updatePendingForFolder_def example_store_def)
  have h5: "\<forall>f rows. pendingRevisionsByFolder pending_store f = Some rows \<longrightarrow>
             (\<forall>p\<in>set rows. p_id p \<le> revisions_seq pending_store \<and> p_revision p \<noteq> ''r-3'')"
  proof -
    have "pendingRevisionsByFolder example_store = Map.empty"
      by (simp add: example_store_def)
    then have "pendingRevisionsByFolder pending_store =
        [''flows'' \<mapsto> getPendingRevisions example_store ''flows'']"
      by (simp add: pending_store_def updatePendingForFolder_def)
    then show ?thesis
      unfolding seq q by auto
  qed
  have h6: "''r-3'' \<notin> set (concat (map call_tokens later_calls))"
    by code_simp
  have w1: "getPendingWithContent ?s' ''flows'' =
     Some \<lparr>w_files = [(''a.json'', Some ''v1'', False), (''b.json'', None, True)],
           w_revisions = [''r-2'', ''r-1'']\<rparr>"
    by code_simp
  have w2: "getPendingWithContent ?t ''flows'' = Some ?w"
    by code_simp
  have row: "\<lparr>r_id = 3, r_content_id = None, r_revision = ''r-3'', r_created_on = 30,
     r_created_by = ''admin''\<rparr> \<in> set (ghost_revisions ?t)"
    by code_simp
  have mem: "?p \<in> set (getPendingRevisions ?t ''flows'')"
    by code_simp
  note inst = recordRevision_new_file_null_ref[OF h1 h2 h3 h4 h5 h6]
  from inst w2 have absent: "''r-3'' \<notin> set (w_revisions ?w)"
    by blast
  from inst mem have id: "p_id ?p \<noteq> Suc (revisions_seq pending_store)"
    by blast
  from inst have revs: "ghost_revisions ?s' = ghost_revisions pending_store @
       [\<lparr>r_id = 3, r_content_id = None, r_revision = ''r-3'', r_created_on = 30,
         r_created_by = ''admin''\<rparr>]"
    by (simp add: seq)
  from h1 r h3 h4 snapshot h6 revs w1 w2 absent row mem id show ?thesis
    by (intro conjI)
qed


subsection \<open>Reading a tombstone\<close>

text \<open>
  Claim C8, at a tombstone: \<open>readFile\<close> of the deleted file \<open>b.json\<close> resolves,
  with the null content of its row.
\<close>

theorem readFile_tombstone:
  "readFile example_store ''flows'' ''b.json'' = Resolved None"
  by code_simp

end
